theory Spec2Isabelle
  imports Main
begin

section \<open>Startup flags and the operating system seen by the process\<close>

text \<open>
  The flags of main.go, lines 19 to 28, after \<^verbatim>\<open>kingpin.Parse()\<close>. An address is kept
  as the text that \<^verbatim>\<open>%s\<close> prints for it.
\<close>

record flags =
  listenAddress :: string
  forwardAddress :: string
  clientNames :: "string list"
  privateKeyPath :: string
  certChainPath :: string
  caBundlePath :: string
  useSyslog :: bool
  gracefulChild :: bool

text \<open>
  The values a panic of the main goroutine can carry: the errors handed to
  \<^verbatim>\<open>panicOnError\<close> and the failures of building the TLS configuration, and the runtime's
  nil dereference.
\<close>

datatype error = SyslogError | BindError | KeyMaterialError | TrustStoreError | NilDereference

text \<open>Of an X.509 certificate, the organizational units of its subject and a name for it.\<close>

record certificate =
  cert_name :: string
  organizationalUnit :: "string list"

text \<open>
  What the process asks of the operating system and of its libraries: its process IDs,
  whether the system log can be reached, whether a socket can be bound, the contents of
  files, the clock that stamps log lines (in the format of the logger and in the format of
  the system log), the name the program was started under, the parsers of PEM material,
  the X.509 path validation of a presented chain against a trust pool, and whether a
  backend answers.
\<close>

record os_env =
  pid :: int
  ppid :: int
  syslog_available :: bool
  can_bind :: "string \<Rightarrow> string \<Rightarrow> bool"
  read_file :: "string \<Rightarrow> string option"
  timestamp :: "nat \<Rightarrow> string"
  syslog_timestamp :: "nat \<Rightarrow> string"
  program_name :: string
  decode_address :: "string \<Rightarrow> string \<times> string"
  parse_key_pair :: "string \<Rightarrow> string \<Rightarrow> string option"
  parse_ca_bundle :: "string \<Rightarrow> string list"
  verify_chain :: "string list \<Rightarrow> certificate list \<Rightarrow> bool"
  backend_reachable :: "string \<Rightarrow> bool"

section \<open>The logger (main.go, lines 31 to 45)\<close>

subsection \<open>Formatting of integers, as \<^verbatim>\<open>fmt.Sprintf\<close> does it\<close>

definition digit_char :: "nat \<Rightarrow> char" where
  "digit_char d = ''0123456789'' ! d"

fun itoa :: "nat \<Rightarrow> string" where
  "itoa n = (if n < 10 then [digit_char n] else itoa (n div 10) @ [digit_char (n mod 10)])"

declare itoa.simps [simp del]

text \<open>The verb \<^verbatim>\<open>%d\<close>: a minus sign for a negative number, then the decimal digits.\<close>

definition fmt_d :: "int \<Rightarrow> string" where
  "fmt_d n = (if n < 0 then CHR ''-'' # itoa (nat (- n)) else itoa (nat n))"

text \<open>
  A width pads with spaces on the left up to the width and never truncates:
  \<^verbatim>\<open>%5d\<close> of 123456 is the six digits.
\<close>

definition pad_left :: "nat \<Rightarrow> string \<Rightarrow> string" where
  "pad_left w s = replicate (w - length s) CHR '' '' @ s"

definition fmt_5d :: "int \<Rightarrow> string" where
  "fmt_5d n = pad_left 5 (fmt_d n)"

text \<open>\<^verbatim>\<open>fmt.Sprintf("[%5d] ", os.Getpid())\<close>, line 44.\<close>

definition pid_prefix :: "int \<Rightarrow> string" where
  "pid_prefix p = ''['' @ fmt_5d p @ ''] ''"

subsection \<open>The logger object\<close>

text \<open>
  Where a logger writes: to standard error, or to the writer of the system log, which
  has a priority and a tag.
\<close>

datatype log_dest = Stderr | Syslog nat string

text \<open>
  A \<^verbatim>\<open>log.Logger\<close>: where it writes, its prefix and its flags
  (\<^verbatim>\<open>log.LstdFlags|log.Lmicroseconds\<close> is 7).
\<close>

record logger =
  dest :: log_dest
  prefix :: string
  lflags :: nat

definition LstdFlags_Lmicroseconds :: nat where
  "LstdFlags_Lmicroseconds = 7"

text \<open>\<^verbatim>\<open>syslog.LOG_NOTICE|syslog.LOG_DAEMON\<close>, line 37: severity 5, facility 3 shifted by 3.\<close>

definition LOG_NOTICE_LOG_DAEMON :: nat where
  "LOG_NOTICE_LOG_DAEMON = 29"

definition log_New :: "log_dest \<Rightarrow> string \<Rightarrow> nat \<Rightarrow> logger" where
  "log_New d p f = \<lparr>dest = d, prefix = p, lflags = f\<rparr>"

definition SetPrefix :: "string \<Rightarrow> logger \<Rightarrow> logger" where
  "SetPrefix p lg = lg\<lparr>prefix := p\<rparr>"

text \<open>
  \<^verbatim>\<open>initLogger\<close>: both branches build a logger with an empty prefix; the system-log
  branch panics (\<^verbatim>\<open>panicOnError\<close>) when the system log cannot be opened; line 44 then sets
  the prefix of whichever logger was built. \<^verbatim>\<open>syslog.NewLogger\<close> opens the writer with the
  priority it is given and with the program's name as the tag.
\<close>

definition initLogger :: "os_env \<Rightarrow> flags \<Rightarrow> error + logger" where
  "initLogger env fl =
     (case (if useSyslog fl then
              (if syslog_available env
               then Inr (log_New (Syslog LOG_NOTICE_LOG_DAEMON (program_name env)) []
                          LstdFlags_Lmicroseconds)
               else Inl SyslogError)
            else Inr (log_New Stderr [] LstdFlags_Lmicroseconds)) of
        Inl e \<Rightarrow> Inl e
      | Inr lg \<Rightarrow> Inr (SetPrefix (pid_prefix (pid env)) lg))"

text \<open>
  One entry as \<^verbatim>\<open>Logger.Printf\<close> hands it to the writer of the logger: the prefix, the
  time stamp that the flags ask for, the message, and a newline unless the message ends in
  one.
\<close>

definition log_entry :: "logger \<Rightarrow> string \<Rightarrow> string \<Rightarrow> string" where
  "log_entry lg stamp msg =
     prefix lg @ (if lflags lg = 0 then [] else stamp @ '' '') @ msg
       @ (if msg = [] \<or> last msg \<noteq> CHR 0x0A then [CHR 0x0A] else [])"

text \<open>
  What the writer of the system log puts in front of what it is given: the priority in
  angle brackets, its own time stamp, the tag, and the process ID in brackets with a
  colon. It adds a newline when what it is given does not end in one.
\<close>

definition syslog_header :: "nat \<Rightarrow> string \<Rightarrow> string \<Rightarrow> int \<Rightarrow> string" where
  "syslog_header pri stamp tag p =
     ''<'' @ itoa pri @ ''>'' @ stamp @ '' '' @ tag @ ''['' @ fmt_d p @ '']: ''"

definition syslog_write :: "nat \<Rightarrow> string \<Rightarrow> string \<Rightarrow> int \<Rightarrow> string \<Rightarrow> string" where
  "syslog_write pri stamp tag p m =
     syslog_header pri stamp tag p @ m
       @ (if m = [] \<or> last m \<noteq> CHR 0x0A then [CHR 0x0A] else [])"

text \<open>
  The line that the process emits for the \<open>n\<close>-th call of \<^verbatim>\<open>Logger.Printf\<close>: on standard
  error the entry as it is, on the system log the entry as that writer frames it.
\<close>

definition log_line :: "os_env \<Rightarrow> logger \<Rightarrow> nat \<Rightarrow> string \<Rightarrow> string" where
  "log_line env lg n msg =
     (case dest lg of
        Stderr \<Rightarrow> log_entry lg (timestamp env n) msg
      | Syslog pri tag \<Rightarrow>
          syslog_write pri (syslog_timestamp env n) tag (pid env)
            (log_entry lg (timestamp env n) msg))"

section \<open>The TLS policy\<close>

record tls_config =
  key_pair :: string
  trust_pool :: "string list"
  require_client_cert :: bool
  accepted_ous :: "string list"

text \<open>
  Modelled from the spec: \<^verbatim>\<open>buildConfig\<close>, called at main.go line 70, is defined in a file
  that is not among the sources. The spec (4.2) has it load and parse the key pair, failing
  with KeyMaterialError on unreadable or malformed content, then load the CA bundle into a
  trust pool, failing with TrustStoreError if it is empty or malformed, then build a server
  configuration that requires a client certificate, verifies it against the trust pool and
  checks the organizational units against the accepted set. The call site shows that it
  returns the configuration alone, so a failure can only leave it as a panic.
\<close>

definition buildConfig :: "os_env \<Rightarrow> flags \<Rightarrow> error + tls_config" where
  "buildConfig env fl =
     (case read_file env (privateKeyPath fl) of
        None \<Rightarrow> Inl KeyMaterialError
      | Some key \<Rightarrow>
          (case read_file env (certChainPath fl) of
             None \<Rightarrow> Inl KeyMaterialError
           | Some crt \<Rightarrow>
               (case parse_key_pair env crt key of
                  None \<Rightarrow> Inl KeyMaterialError
                | Some kp \<Rightarrow>
                    (case read_file env (caBundlePath fl) of
                       None \<Rightarrow> Inl TrustStoreError
                     | Some ca \<Rightarrow>
                         (if parse_ca_bundle env ca = [] then Inl TrustStoreError
                          else Inr \<lparr>key_pair = kp, trust_pool = parse_ca_bundle env ca,
                                    require_client_cert = True,
                                    accepted_ous = clientNames fl\<rparr>)))))"

datatype handshake_error = NoClientCertificate | UntrustedChain | NoAcceptedOU

text \<open>
  Modelled from the spec: the check made after chain verification (4.2, step 3), in a file
  that is not among the sources: at least one certificate of the presented chain carries
  an organizational unit of the accepted set.
\<close>

definition ou_accepted :: "string list \<Rightarrow> certificate list \<Rightarrow> bool" where
  "ou_accepted acc chain =
     list_ex (\<lambda>c. list_ex (\<lambda>ou. ou \<in> set acc) (organizationalUnit c)) chain"

text \<open>
  Modelled from the spec: the server side of a handshake under a configuration (4.2 step 3
  and the per-handshake errors of section 7: certificate missing, untrusted, or lacking an
  accepted organizational unit).
\<close>

definition handshake :: "os_env \<Rightarrow> tls_config \<Rightarrow> certificate list \<Rightarrow> handshake_error + certificate list" where
  "handshake env cfg chain =
     (if require_client_cert cfg \<and> chain = [] then Inl NoClientCertificate
      else if \<not> verify_chain env (trust_pool cfg) chain then Inl UntrustedChain
      else if \<not> ou_accepted (accepted_ous cfg) chain then Inl NoAcceptedOU
      else Inr chain)"

datatype conn_event =
    HandshakeFailed handshake_error
  | HandshakeDone
  | DialBackend string
  | BackendUnreachable
  | Relay
  | CloseClient
  | CloseBackend
  | Decrement

text \<open>
  Modelled from the spec: what the task of one accepted connection does (4.5, steps 2 to
  4), in a file that is not among the sources. A failed handshake closes the connection
  and decrements the counter; an unreachable backend does the same; otherwise bytes are
  relayed both ways, both ends are closed and the counter is decremented.
\<close>

definition handle :: "os_env \<Rightarrow> tls_config \<Rightarrow> string \<Rightarrow> certificate list \<Rightarrow> conn_event list" where
  "handle env cfg backend chain =
     (case handshake env cfg chain of
        Inl e \<Rightarrow> [HandshakeFailed e, CloseClient, Decrement]
      | Inr _ \<Rightarrow>
          (if \<not> backend_reachable env backend
           then [HandshakeDone, DialBackend backend, BackendUnreachable, CloseClient, Decrement]
           else [HandshakeDone, DialBackend backend, Relay, CloseClient, CloseBackend, Decrement]))"

section \<open>The process\<close>

text \<open>
  The main goroutine is at one of the statements of \<^verbatim>\<open>main\<close> (named by their line in
  main.go), or has returned, or has panicked. When it returns the process exits with
  status 0, whatever other goroutines are doing; a panic that nothing recovers ends the
  process with status 2.
\<close>

datatype main_pc =
    L57 | L65 | L70 | L71 | L73 | L78 | L80 | L81 | L82 | L86 | L88 | L89 | L92 | L94 | L96
  | Returned
  | Panicked error

datatype task = NotStarted | Running

datatype acceptor_state = NotLaunched | Accepting | StoppedOnNotification | StoppedOnError

datatype signal = SIGTERM | SIGUSR1

record proc =
  pc :: main_pc
  the_logger :: "logger option"
  log_out :: "string list"
  raw_listener :: bool
  listener_config :: "tls_config option"
  listener_closed :: bool
  close_calls :: nat
  wg :: int
  stopper :: nat
  acceptor :: acceptor_state
  sigterm_handler :: task
  sigusr1_handler :: task
  active :: "nat list"
  next_conn :: nat
  kills :: "(int \<times> signal) list"
  spawned :: nat

definition init :: proc where
  "init = \<lparr>pc = L57, the_logger = None, log_out = [], raw_listener = False,
            listener_config = None, listener_closed = False, close_calls = 0, wg = 0,
            stopper = 0, acceptor = NotLaunched, sigterm_handler = NotStarted,
            sigusr1_handler = NotStarted, active = [], next_conn = 0, kills = [],
            spawned = 0\<rparr>"

definition terminated :: "proc \<Rightarrow> bool" where
  "terminated s = (case pc s of Returned \<Rightarrow> True | Panicked e \<Rightarrow> True | _ \<Rightarrow> False)"

definition exit_code :: "proc \<Rightarrow> int option" where
  "exit_code s = (case pc s of Returned \<Rightarrow> Some 0 | Panicked e \<Rightarrow> Some 2 | _ \<Rightarrow> None)"

text \<open>\<^verbatim>\<open>panicOnError\<close>, lines 48 to 52: a panic when there is an error, else go on.\<close>

definition panicOnError :: "error + 'a \<Rightarrow> ('a \<Rightarrow> proc) \<Rightarrow> proc \<Rightarrow> proc" where
  "panicOnError r k s = (case r of Inl e \<Rightarrow> s\<lparr>pc := Panicked e\<rparr> | Inr v \<Rightarrow> k v)"

text \<open>
  \<^verbatim>\<open>logger.Printf\<close> on the global logger, which is nil until \<^verbatim>\<open>initLogger\<close> has run.
  The log of the process holds the lines as they are emitted.
\<close>

definition Printf :: "os_env \<Rightarrow> string \<Rightarrow> proc \<Rightarrow> proc" where
  "Printf env msg s =
     (case the_logger s of
        None \<Rightarrow> s\<lparr>pc := Panicked NilDereference\<rparr>
      | Some lg \<Rightarrow> s\<lparr>log_out := log_out s @ [log_line env lg (length (log_out s)) msg]\<rparr>)"

text \<open>\<^verbatim>\<open>reuseport.NewReusablePortListener(network, address)\<close>, line 66.\<close>

definition NewReusablePortListener :: "os_env \<Rightarrow> string \<Rightarrow> string \<Rightarrow> error + unit" where
  "NewReusablePortListener env network address =
     (if can_bind env network address then Inr () else Inl BindError)"

text \<open>
  One statement of \<^verbatim>\<open>main\<close>. Lines 55 and 56 come first: they set the number of
  processors and parse the command line into the flags; the model starts after them, at
  line 57, with the flags parsed. At line 70 the argument \<^verbatim>\<open>buildConfig()\<close> is evaluated
  before \<^verbatim>\<open>tls.NewListener\<close> is called. At line 94 \<^verbatim>\<open>wg.Wait()\<close> returns only when the
  counter is zero; until then the main goroutine stays where it is. Line 87 reads the
  parent's process ID, which lines 88 and 89 use; the result of \<^verbatim>\<open>syscall.Kill\<close> is dropped.
\<close>

definition main_step :: "os_env \<Rightarrow> flags \<Rightarrow> proc \<Rightarrow> proc" where
  "main_step env fl s =
     (case pc s of
        L57 \<Rightarrow> panicOnError (initLogger env fl) (\<lambda>lg. s\<lparr>the_logger := Some lg, pc := L65\<rparr>) s
      | L65 \<Rightarrow>
          (case decode_address env (listenAddress fl) of
             (network, address) \<Rightarrow>
               panicOnError (NewReusablePortListener env network address)
                 (\<lambda>_. s\<lparr>raw_listener := True, pc := L70\<rparr>) s)
      | L70 \<Rightarrow> panicOnError (buildConfig env fl) (\<lambda>cfg. s\<lparr>listener_config := Some cfg, pc := L71\<rparr>) s
      | L71 \<Rightarrow> Printf env (''listening on '' @ listenAddress fl) (s\<lparr>pc := L73\<rparr>)
      | L73 \<Rightarrow> s\<lparr>wg := 0 + 1, pc := L78\<rparr>
      | L78 \<Rightarrow> s\<lparr>stopper := 0, pc := L80\<rparr>
      | L80 \<Rightarrow> s\<lparr>acceptor := Accepting, pc := L81\<rparr>
      | L81 \<Rightarrow> s\<lparr>sigterm_handler := Running, pc := L82\<rparr>
      | L82 \<Rightarrow> s\<lparr>sigusr1_handler := Running, pc := L86\<rparr>
      | L86 \<Rightarrow> s\<lparr>pc := (if gracefulChild fl then L88 else L92)\<rparr>
      | L88 \<Rightarrow> Printf env (''sending SIGTERM to parent PID '' @ fmt_d (ppid env)) (s\<lparr>pc := L89\<rparr>)
      | L89 \<Rightarrow> s\<lparr>kills := kills s @ [(ppid env, SIGTERM)], pc := L92\<rparr>
      | L92 \<Rightarrow> Printf env ''startup completed, waiting for connections'' (s\<lparr>pc := L94\<rparr>)
      | L94 \<Rightarrow> (if wg s = 0 then s\<lparr>pc := L96\<rparr> else s)
      | L96 \<Rightarrow> Printf env ''all connections closed, shutting down'' (s\<lparr>pc := Returned\<rparr>)
      | Returned \<Rightarrow> s
      | Panicked e \<Rightarrow> s)"

subsection \<open>The goroutines that \<^verbatim>\<open>main\<close> launches\<close>

text \<open>
  Modelled from the spec: \<^verbatim>\<open>accept\<close>, launched at line 80 with the listener, the join
  counter and the stop channel, is defined in a file that is not among the sources. The
  spec (4.5) has the loop increment the counter for each accepted connection and hand the
  connection to a task of its own. An accept call on a closed listener fails at once;
  the loop then ends, cleanly when the stop channel holds a notification and as a fatal
  accept error otherwise. An accept error on an open listener is fatal to the loop as
  well. The unit that line 74 adds before the launch is the loop's own: the loop gives it
  back when it ends.
\<close>

definition accept_error :: "proc \<Rightarrow> proc" where
  "accept_error s =
     (if 0 < stopper s
      then s\<lparr>stopper := stopper s - 1, acceptor := StoppedOnNotification, wg := wg s - 1\<rparr>
      else s\<lparr>acceptor := StoppedOnError, wg := wg s - 1\<rparr>)"

text \<open>
  Modelled from the spec: one return of the accept call of the loop (4.5), with a
  connection when one comes in on an open listener, and with an error otherwise.
\<close>

definition accept_returns :: "bool \<Rightarrow> proc \<Rightarrow> proc" where
  "accept_returns incoming s =
     (if acceptor s \<noteq> Accepting then s
      else if listener_closed s then accept_error s
      else if incoming
      then s\<lparr>wg := wg s + 1, active := active s @ [next_conn s], next_conn := next_conn s + 1\<rparr>
      else accept_error s)"

text \<open>
  Modelled from the spec: the end of the task of connection \<open>i\<close> (4.5, steps 2 to 4): on
  each of its three ways out the task decrements the counter once.
\<close>

definition conn_finishes :: "nat \<Rightarrow> proc \<Rightarrow> proc" where
  "conn_finishes i s =
     (if i \<in> set (active s) then s\<lparr>active := remove1 i (active s), wg := wg s - 1\<rparr> else s)"

text \<open>
  Modelled from the spec: \<^verbatim>\<open>sigtermHandler\<close>, launched at line 81 with the listener and the
  stop channel, is defined in a file that is not among the sources. The spec (4.4) has a
  termination signal close the listener at once and stop the accepting, and a further
  termination signal, received when the listener is closed already, do nothing. The stop
  channel of line 78 holds one notification.
\<close>

definition sigterm_received :: "proc \<Rightarrow> proc" where
  "sigterm_received s =
     (if sigterm_handler s \<noteq> Running then s
      else if listener_closed s then s
      else s\<lparr>stopper := stopper s + 1, listener_closed := True,
             close_calls := close_calls s + 1\<rparr>)"

text \<open>
  Modelled from the spec: \<^verbatim>\<open>sigusr1Handler\<close>, launched at line 82, is defined in a file that
  is not among the sources. The spec (4.4) has a reload signal spawn a new process with the
  same arguments and the marker flag, without waiting for it.
\<close>

definition sigusr1_received :: "proc \<Rightarrow> proc" where
  "sigusr1_received s =
     (if sigusr1_handler s \<noteq> Running then s else s\<lparr>spawned := spawned s + 1\<rparr>)"

subsection \<open>Executions\<close>

text \<open>
  What can happen next: the main goroutine runs its statement, the accept call of the loop
  returns (with a connection or with an error), the task of a connection ends, or a
  handler receives its signal. Nothing happens in a process that has exited. A signal is
  an action of the handler that receives it: a signal that arrives before line 81 or 82
  has launched its handler is not part of this model.
\<close>

datatype action =
    Main
  | AcceptReturns bool
  | Finish nat
  | Signal signal

definition step :: "os_env \<Rightarrow> flags \<Rightarrow> action \<Rightarrow> proc \<Rightarrow> proc" where
  "step env fl a s =
     (if terminated s then s
      else case a of
        Main \<Rightarrow> main_step env fl s
      | AcceptReturns incoming \<Rightarrow> accept_returns incoming s
      | Finish i \<Rightarrow> conn_finishes i s
      | Signal SIGTERM \<Rightarrow> sigterm_received s
      | Signal SIGUSR1 \<Rightarrow> sigusr1_received s)"

fun run :: "os_env \<Rightarrow> flags \<Rightarrow> action list \<Rightarrow> proc \<Rightarrow> proc" where
  "run env fl [] s = s"
| "run env fl (a # as) s = run env fl as (step env fl a s)"

text \<open>The lifecycle states of the spec (section 3), read off the state of the process.\<close>

datatype lifecycle_state = STARTING | LISTENING | RELOADING | DRAINING | TERMINATED

definition lifecycle :: "proc \<Rightarrow> lifecycle_state" where
  "lifecycle s =
     (if terminated s then TERMINATED
      else if listener_closed s then DRAINING
      else if acceptor s = NotLaunched then STARTING
      else if 0 < spawned s then RELOADING
      else LISTENING)"

section \<open>Invariants of the executions\<close>

text \<open>
  How far the main goroutine has come: the number of statements of \<^verbatim>\<open>main\<close> completed. A
  panic stays at the statement that raised it.
\<close>

fun progress :: "main_pc \<Rightarrow> nat" where
  "progress L57 = 0"
| "progress L65 = 1"
| "progress L70 = 2"
| "progress L71 = 3"
| "progress L73 = 4"
| "progress L78 = 5"
| "progress L80 = 6"
| "progress L81 = 7"
| "progress L82 = 8"
| "progress L86 = 9"
| "progress L88 = 10"
| "progress L89 = 11"
| "progress L92 = 12"
| "progress L94 = 13"
| "progress L96 = 14"
| "progress Returned = 15"
| "progress (Panicked SyslogError) = 0"
| "progress (Panicked BindError) = 1"
| "progress (Panicked KeyMaterialError) = 2"
| "progress (Panicked TrustStoreError) = 2"
| "progress (Panicked NilDereference) = 0"

text \<open>What the statements completed so far have set up, and nothing more.\<close>

definition startup_inv :: "os_env \<Rightarrow> flags \<Rightarrow> proc \<Rightarrow> bool" where
  "startup_inv env fl s =
     ((the_logger s \<noteq> None) = (1 \<le> progress (pc s))
      \<and> raw_listener s = (2 \<le> progress (pc s))
      \<and> (listener_config s \<noteq> None) = (3 \<le> progress (pc s))
      \<and> (acceptor s \<noteq> NotLaunched) = (7 \<le> progress (pc s))
      \<and> (sigterm_handler s = Running) = (8 \<le> progress (pc s))
      \<and> (sigusr1_handler s = Running) = (9 \<le> progress (pc s))
      \<and> kills s = (if 12 \<le> progress (pc s) \<and> gracefulChild fl then [(ppid env, SIGTERM)] else [])
      \<and> (progress (pc s) = 10 \<or> progress (pc s) = 11 \<longrightarrow> gracefulChild fl))"

text \<open>A statement that has been passed did not fail.\<close>

definition success_inv :: "os_env \<Rightarrow> flags \<Rightarrow> proc \<Rightarrow> bool" where
  "success_inv env fl s =
     ((1 \<le> progress (pc s) \<longrightarrow> (\<exists>lg. initLogger env fl = Inr lg))
      \<and> (2 \<le> progress (pc s) \<longrightarrow>
            can_bind env (fst (decode_address env (listenAddress fl)))
              (snd (decode_address env (listenAddress fl))))
      \<and> (3 \<le> progress (pc s) \<longrightarrow> (\<exists>cfg. buildConfig env fl = Inr cfg)))"

text \<open>Why a statement of \<^verbatim>\<open>main\<close> panics.\<close>

definition panic_cause :: "os_env \<Rightarrow> flags \<Rightarrow> error \<Rightarrow> bool" where
  "panic_cause env fl e =
     (case e of
        SyslogError \<Rightarrow> initLogger env fl = Inl SyslogError
      | BindError \<Rightarrow>
          \<not> can_bind env (fst (decode_address env (listenAddress fl)))
                (snd (decode_address env (listenAddress fl)))
      | KeyMaterialError \<Rightarrow> buildConfig env fl = Inl KeyMaterialError
      | TrustStoreError \<Rightarrow> buildConfig env fl = Inl TrustStoreError
      | NilDereference \<Rightarrow> False)"

definition panic_inv :: "os_env \<Rightarrow> flags \<Rightarrow> proc \<Rightarrow> bool" where
  "panic_inv env fl s = (case pc s of Panicked e \<Rightarrow> panic_cause env fl e | _ \<Rightarrow> True)"

text \<open>The configuration of the listener is the one that \<^verbatim>\<open>buildConfig\<close> returned.\<close>

definition config_inv :: "os_env \<Rightarrow> flags \<Rightarrow> proc \<Rightarrow> bool" where
  "config_inv env fl s =
     (case listener_config s of None \<Rightarrow> True | Some cfg \<Rightarrow> buildConfig env fl = Inr cfg)"

text \<open>
  The join counter holds one unit for the accept loop, from line 74 until the loop ends,
  and one unit for each connection whose task has not ended.
\<close>

definition loop_unit :: "proc \<Rightarrow> int" where
  "loop_unit s = (if acceptor s = NotLaunched \<or> acceptor s = Accepting then 1 else 0)"

definition counter_inv :: "proc \<Rightarrow> bool" where
  "counter_inv s =
     ((progress (pc s) < 5 \<longrightarrow> wg s = 0)
      \<and> (5 \<le> progress (pc s) \<longrightarrow> wg s = loop_unit s + int (length (active s)))
      \<and> (14 \<le> progress (pc s) \<longrightarrow> wg s = 0)
      \<and> (progress (pc s) < 7 \<longrightarrow> acceptor s = NotLaunched)
      \<and> (acceptor s = NotLaunched \<longrightarrow> active s = []))"

text \<open>The listener is closed at most once, and the stop channel never holds more than it can.\<close>

definition shutdown_inv :: "proc \<Rightarrow> bool" where
  "shutdown_inv s =
     ((listener_closed s \<longrightarrow> sigterm_handler s = Running \<and> close_calls s = 1)
      \<and> (\<not> listener_closed s \<longrightarrow> stopper s = 0 \<and> close_calls s = 0)
      \<and> stopper s \<le> 1
      \<and> (sigterm_handler s = Running \<longrightarrow> 8 \<le> progress (pc s))
      \<and> (acceptor s = StoppedOnNotification \<longrightarrow> listener_closed s))"

text \<open>
  What stands in front of the entry in the \<open>n\<close>-th line emitted: nothing on standard
  error, the header of the system log otherwise.
\<close>

definition line_header :: "os_env \<Rightarrow> flags \<Rightarrow> nat \<Rightarrow> string" where
  "line_header env fl n =
     (if useSyslog fl
      then syslog_header LOG_NOTICE_LOG_DAEMON (syslog_timestamp env n) (program_name env) (pid env)
      else [])"

text \<open>
  The logger, once set, has the prefix of line 44 and the destination that the flag
  chooses, and every line emitted is its header followed by an entry that starts with
  the prefix.
\<close>

definition log_inv :: "os_env \<Rightarrow> flags \<Rightarrow> proc \<Rightarrow> bool" where
  "log_inv env fl s =
     ((\<forall>lg. the_logger s = Some lg \<longrightarrow>
          prefix lg = pid_prefix (pid env)
          \<and> dest lg = (if useSyslog fl then Syslog LOG_NOTICE_LOG_DAEMON (program_name env)
                        else Stderr))
      \<and> (\<forall>n < length (log_out s).
            take (length (line_header env fl n @ pid_prefix (pid env))) (log_out s ! n)
              = line_header env fl n @ pid_prefix (pid env)))"

text \<open>
  The first of the three fallible statements of the startup (lines 57, 66 and 70) that
  fails, if any does.
\<close>

definition startup_failure :: "os_env \<Rightarrow> flags \<Rightarrow> error option" where
  "startup_failure env fl =
     (case initLogger env fl of
        Inl e \<Rightarrow> Some e
      | Inr _ \<Rightarrow>
          (case decode_address env (listenAddress fl) of
             (network, address) \<Rightarrow>
               (case NewReusablePortListener env network address of
                  Inl e \<Rightarrow> Some e
                | Inr _ \<Rightarrow>
                    (case buildConfig env fl of Inl e \<Rightarrow> Some e | Inr _ \<Rightarrow> None))))"

section \<open>Sample configurations\<close>

definition sample_env :: os_env where
  "sample_env =
     \<lparr>pid = 4321, ppid = 77, syslog_available = True,
      can_bind = (\<lambda>network address. True),
      read_file = (\<lambda>p. if p = ''missing.pem'' then None else Some p),
      timestamp = (\<lambda>n. ''2015/11/02 10:00:00.000000''),
      syslog_timestamp = (\<lambda>n. ''Nov  2 10:00:00''),
      program_name = ''ghostunnel'',
      decode_address = (\<lambda>a. (''tcp4'', a)),
      parse_key_pair = (\<lambda>crt key. Some (crt @ key)),
      parse_ca_bundle = (\<lambda>bundle. [bundle]),
      verify_chain = (\<lambda>pool chain. True),
      backend_reachable = (\<lambda>b. True)\<rparr>"

definition sample_flags :: flags where
  "sample_flags =
     \<lparr>listenAddress = ''127.0.0.1:9443'', forwardAddress = ''127.0.0.1:8080'',
      clientNames = [''ops''], privateKeyPath = ''key.pem'', certChainPath = ''cert.pem'',
      caBundlePath = ''ca.pem'', useSyslog = False, gracefulChild = True\<rparr>"

text \<open>The same, logging to the system log.\<close>

definition sample_flags_syslog :: flags where
  "sample_flags_syslog = sample_flags\<lparr>useSyslog := True\<rparr>"

text \<open>The main goroutine up to the first line it logs, at line 71.\<close>

definition listening_schedule :: "action list" where
  "listening_schedule = [Main, Main, Main, Main]"

text \<open>The first of the sample flags, with a private key that cannot be read.\<close>

definition sample_flags_nokey :: flags where
  "sample_flags_nokey = sample_flags\<lparr>privateKeyPath := ''missing.pem''\<rparr>"

text \<open>The main goroutine alone, from the start to the wait of line 94.\<close>

definition startup_schedule :: "action list" where
  "startup_schedule =
     [Main, Main, Main, Main, Main, Main, Main, Main, Main, Main, Main, Main, Main, Main]"

text \<open>The sample process when its main goroutine waits at line 94.\<close>

definition sample_config :: tls_config where
  "sample_config =
     \<lparr>key_pair = ''cert.pemkey.pem'', trust_pool = [''ca.pem''],
      require_client_cert = True, accepted_ous = [''ops'']\<rparr>"

definition sample_listening :: proc where
  "sample_listening =
     \<lparr>pc = L94,
      the_logger = Some \<lparr>dest = Stderr, prefix = ''[ 4321] '', lflags = 7\<rparr>,
      log_out =
        [''[ 4321] 2015/11/02 10:00:00.000000 listening on 127.0.0.1:9443'' @ [CHR 0x0A],
         ''[ 4321] 2015/11/02 10:00:00.000000 sending SIGTERM to parent PID 77'' @ [CHR 0x0A],
         ''[ 4321] 2015/11/02 10:00:00.000000 startup completed, waiting for connections''
           @ [CHR 0x0A]],
      raw_listener = True, listener_config = Some sample_config,
      listener_closed = False, close_calls = 0, wg = 1, stopper = 0,
      acceptor = Accepting, sigterm_handler = Running, sigusr1_handler = Running,
      active = [], next_conn = 0, kills = [(77, SIGTERM)], spawned = 0\<rparr>"

text \<open>
  The same process after two connections were accepted and a termination signal was
  received, and the schedule that leads there.
\<close>

definition sample_draining :: proc where
  "sample_draining =
     sample_listening\<lparr>wg := 3, active := [0, 1], next_conn := 2, stopper := 1,
       listener_closed := True, close_calls := 1\<rparr>"

definition draining_schedule :: "action list" where
  "draining_schedule = startup_schedule @ [AcceptReturns True, AcceptReturns True, Signal SIGTERM]"

text \<open>
  From there: the accept call fails on the closed listener, both connections end, and
  the main goroutine runs to its end.
\<close>

definition finishing_schedule :: "action list" where
  "finishing_schedule = [AcceptReturns False, Finish 1, Finish 0, Main, Main, Main]"


text \<open>A client certificate of the unit ops, and one of the unit guest.\<close>

definition ops_cert :: certificate where
  "ops_cert = \<lparr>cert_name = ''client-ops'', organizationalUnit = [''ops'']\<rparr>"

definition guest_cert :: certificate where
  "guest_cert = \<lparr>cert_name = ''client-guest'', organizationalUnit = [''guest'']\<rparr>"

section \<open>Properties of the formatting\<close>


lemma digit_char_inj: "a < 10 \<Longrightarrow> b < 10 \<Longrightarrow> digit_char a = digit_char b \<Longrightarrow> a = b"
proof -
  assume a: "a < 10" and b: "b < 10" and e: "digit_char a = digit_char b"
  have d: "distinct ''0123456789''" by simp
  have l: "length ''0123456789'' = 10" by simp
  from e have "''0123456789'' ! a = ''0123456789'' ! b" by (simp only: digit_char_def)
  with d a b l show "a = b" by (metis nth_eq_iff_index_eq)
qed

lemma digit_char_in: "a < 10 \<Longrightarrow> digit_char a \<in> set ''0123456789''"
  unfolding digit_char_def by (rule nth_mem) simp

lemma itoa_digits: "c \<in> set (itoa n) \<Longrightarrow> c \<in> set ''0123456789''"
proof (induction n arbitrary: c rule: itoa.induct)
  case (1 n)
  show ?case
  proof (cases "n < 10")
    case True
    with "1.prems" have "c = digit_char n" by (simp add: itoa.simps [of n])
    with True show ?thesis using digit_char_in by blast
  next
    case False
    with "1.prems" have "c \<in> set (itoa (n div 10)) \<or> c = digit_char (n mod 10)"
      by (auto simp: itoa.simps [of n])
    moreover have "digit_char (n mod 10) \<in> set ''0123456789''" by (rule digit_char_in) simp
    ultimately show ?thesis using "1.IH" [OF False] by blast
  qed
qed

lemma itoa_nonempty: "itoa n \<noteq> []"
  by (subst itoa.simps) simp

lemma itoa_inj: "itoa m = itoa n \<Longrightarrow> m = n"
proof (induction m arbitrary: n rule: itoa.induct)
  case (1 m)
  show ?case
  proof (cases "m < 10")
    case m: True
    show ?thesis
    proof (cases "n < 10")
      case True
      with m "1.prems" show ?thesis by (simp add: itoa.simps [of m] itoa.simps [of n] digit_char_inj)
    next
      case False
      with m "1.prems" have "itoa (n div 10) = []"
        by (simp add: itoa.simps [of m] itoa.simps [of n])
      then show ?thesis using itoa_nonempty by blast
    qed
  next
    case m: False
    show ?thesis
    proof (cases "n < 10")
      case True
      with m "1.prems" have "itoa (m div 10) = []"
        by (simp add: itoa.simps [of m] itoa.simps [of n])
      then show ?thesis using itoa_nonempty by blast
    next
      case False
      with m "1.prems" have e: "itoa (m div 10) = itoa (n div 10)"
        and d: "digit_char (m mod 10) = digit_char (n mod 10)"
        by (simp_all add: itoa.simps [of m] itoa.simps [of n])
      from "1.IH" [OF m e] have "m div 10 = n div 10" .
      moreover from d have "m mod 10 = n mod 10" by (intro digit_char_inj) simp_all
      ultimately show ?thesis by (metis div_mult_mod_eq)
    qed
  qed
qed

lemma itoa_hd: "hd (itoa n) \<in> set ''0123456789''"
  using itoa_digits [of "hd (itoa n)" n] itoa_nonempty [of n] by (meson hd_in_set)

lemma fmt_d_nonempty: "fmt_d n \<noteq> []"
  by (simp add: fmt_d_def itoa_nonempty)

lemma fmt_d_hd: "hd (fmt_d n) \<noteq> CHR '' ''"
  using itoa_hd [of "nat n"] by (auto simp: fmt_d_def)

lemma fmt_d_inj: "fmt_d m = fmt_d n \<Longrightarrow> m = n"
proof -
  assume e: "fmt_d m = fmt_d n"
  have nm: "\<And>k j. CHR ''-'' # itoa k \<noteq> itoa j"
  proof
    fix k j assume "CHR ''-'' # itoa k = itoa j"
    then have "hd (itoa j) = CHR ''-''" by (metis list.sel(1))
    with itoa_hd [of j] show False by auto
  qed
  show "m = n"
  proof (cases "m < 0")
    case m: True
    show ?thesis
    proof (cases "n < 0")
      case True
      with m e have "itoa (nat (- m)) = itoa (nat (- n))" by (simp add: fmt_d_def)
      then have "nat (- m) = nat (- n)" by (rule itoa_inj)
      with m True show ?thesis by simp
    next
      case False
      with m e nm show ?thesis by (simp add: fmt_d_def)
    qed
  next
    case m: False
    show ?thesis
    proof (cases "n < 0")
      case True
      with m e nm [of "nat (- n)" "nat m"] show ?thesis by (simp add: fmt_d_def)
    next
      case False
      with m e have "itoa (nat m) = itoa (nat n)" by (simp add: fmt_d_def)
      then have "nat m = nat n" by (rule itoa_inj)
      with m False show ?thesis by simp
    qed
  qed
qed

lemma dropWhile_pad_left:
  "s \<noteq> [] \<Longrightarrow> hd s \<noteq> CHR '' '' \<Longrightarrow> dropWhile (\<lambda>c. c = CHR '' '') (pad_left w s) = s"
  by (cases s) (simp_all add: pad_left_def dropWhile_append3 dropWhile_append)

lemma fmt_5d_inj: "fmt_5d m = fmt_5d n \<Longrightarrow> m = n"
proof -
  assume "fmt_5d m = fmt_5d n"
  then have "dropWhile (\<lambda>c. c = CHR '' '') (pad_left 5 (fmt_d m))
           = dropWhile (\<lambda>c. c = CHR '' '') (pad_left 5 (fmt_d n))"
    by (simp add: fmt_5d_def)
  then have "fmt_d m = fmt_d n"
    by (simp add: dropWhile_pad_left fmt_d_nonempty fmt_d_hd)
  then show "m = n" by (rule fmt_d_inj)
qed

lemma pid_prefix_inj: "pid_prefix p = pid_prefix q \<Longrightarrow> p = q"
  by (simp add: pid_prefix_def fmt_5d_inj)

lemma fmt_5d_length: "5 \<le> length (fmt_5d n)"
  by (simp add: fmt_5d_def pad_left_def)

section \<open>Executions keep the invariants\<close>


lemma run_append: "run env fl (xs @ ys) s = run env fl ys (run env fl xs s)"
  by (induction xs arbitrary: s) simp_all

lemma run_invariant:
  assumes "P s" and "\<And>t a. P t \<Longrightarrow> P (step env fl a t)"
  shows "P (run env fl sched s)"
  using assms(1) by (induction sched arbitrary: s) (simp_all add: assms(2))

lemma step_cases:
  assumes "terminated s \<Longrightarrow> P s"
    and "\<not> terminated s \<Longrightarrow> P (main_step env fl s)"
    and "\<And>b. \<not> terminated s \<Longrightarrow> P (accept_returns b s)"
    and "\<And>i. \<not> terminated s \<Longrightarrow> P (conn_finishes i s)"
    and "\<not> terminated s \<Longrightarrow> P (sigterm_received s)"
    and "\<not> terminated s \<Longrightarrow> P (sigusr1_received s)"
  shows "P (step env fl a s)"
proof (cases "terminated s")
  case True
  with assms(1) show ?thesis by (simp add: step_def)
next
  case False
  show ?thesis
  proof (cases a)
    case Main
    with False assms(2) show ?thesis by (simp add: step_def)
  next
    case (AcceptReturns b)
    with False assms(3) show ?thesis by (simp add: step_def)
  next
    case (Finish i)
    with False assms(4) show ?thesis by (simp add: step_def)
  next
    case (Signal g)
    with False assms(5,6) show ?thesis by (cases g) (simp_all add: step_def)
  qed
qed

lemma startup_inv_init: "startup_inv env fl init"
  by (simp add: startup_inv_def init_def)

lemma buildConfig_errors:
  "buildConfig env fl = Inl e \<Longrightarrow> e = KeyMaterialError \<or> e = TrustStoreError"
  by (auto simp: buildConfig_def split: option.splits if_splits)

lemma initLogger_errors: "initLogger env fl = Inl e \<Longrightarrow> e = SyslogError"
  by (auto simp: initLogger_def split: if_splits)

lemma initLogger_progress: "initLogger env fl = Inl e \<Longrightarrow> progress (Panicked e) = 0"
  by (drule initLogger_errors) simp

lemma buildConfig_progress: "buildConfig env fl = Inl e \<Longrightarrow> progress (Panicked e) = 2"
  by (drule buildConfig_errors) auto

lemma main_step_terminated: "terminated s \<Longrightarrow> main_step env fl s = s"
  by (cases "pc s") (simp_all add: terminated_def main_step_def)

lemma accept_returns_frame:
  "pc (accept_returns b s) = pc s"
  "the_logger (accept_returns b s) = the_logger s"
  "log_out (accept_returns b s) = log_out s"
  "raw_listener (accept_returns b s) = raw_listener s"
  "listener_config (accept_returns b s) = listener_config s"
  "listener_closed (accept_returns b s) = listener_closed s"
  "close_calls (accept_returns b s) = close_calls s"
  "sigterm_handler (accept_returns b s) = sigterm_handler s"
  "sigusr1_handler (accept_returns b s) = sigusr1_handler s"
  "kills (accept_returns b s) = kills s"
  "spawned (accept_returns b s) = spawned s"
  "(acceptor (accept_returns b s) = NotLaunched) = (acceptor s = NotLaunched)"
  by (simp_all add: accept_returns_def accept_error_def)

lemma conn_finishes_frame:
  "pc (conn_finishes i s) = pc s"
  "the_logger (conn_finishes i s) = the_logger s"
  "log_out (conn_finishes i s) = log_out s"
  "raw_listener (conn_finishes i s) = raw_listener s"
  "listener_config (conn_finishes i s) = listener_config s"
  "listener_closed (conn_finishes i s) = listener_closed s"
  "close_calls (conn_finishes i s) = close_calls s"
  "stopper (conn_finishes i s) = stopper s"
  "acceptor (conn_finishes i s) = acceptor s"
  "sigterm_handler (conn_finishes i s) = sigterm_handler s"
  "sigusr1_handler (conn_finishes i s) = sigusr1_handler s"
  "kills (conn_finishes i s) = kills s"
  "spawned (conn_finishes i s) = spawned s"
  by (simp_all add: conn_finishes_def)

lemma sigterm_received_frame:
  "pc (sigterm_received s) = pc s"
  "the_logger (sigterm_received s) = the_logger s"
  "log_out (sigterm_received s) = log_out s"
  "raw_listener (sigterm_received s) = raw_listener s"
  "listener_config (sigterm_received s) = listener_config s"
  "wg (sigterm_received s) = wg s"
  "acceptor (sigterm_received s) = acceptor s"
  "active (sigterm_received s) = active s"
  "next_conn (sigterm_received s) = next_conn s"
  "sigterm_handler (sigterm_received s) = sigterm_handler s"
  "sigusr1_handler (sigterm_received s) = sigusr1_handler s"
  "kills (sigterm_received s) = kills s"
  "spawned (sigterm_received s) = spawned s"
  by (simp_all add: sigterm_received_def)

lemma sigusr1_received_frame:
  "pc (sigusr1_received s) = pc s"
  "the_logger (sigusr1_received s) = the_logger s"
  "log_out (sigusr1_received s) = log_out s"
  "raw_listener (sigusr1_received s) = raw_listener s"
  "listener_config (sigusr1_received s) = listener_config s"
  "listener_closed (sigusr1_received s) = listener_closed s"
  "close_calls (sigusr1_received s) = close_calls s"
  "wg (sigusr1_received s) = wg s"
  "stopper (sigusr1_received s) = stopper s"
  "acceptor (sigusr1_received s) = acceptor s"
  "active (sigusr1_received s) = active s"
  "next_conn (sigusr1_received s) = next_conn s"
  "sigterm_handler (sigusr1_received s) = sigterm_handler s"
  "sigusr1_handler (sigusr1_received s) = sigusr1_handler s"
  "kills (sigusr1_received s) = kills s"
  by (simp_all add: sigusr1_received_def)

lemmas frame = accept_returns_frame conn_finishes_frame sigterm_received_frame
  sigusr1_received_frame

lemma startup_inv_main: "startup_inv env fl s \<Longrightarrow> startup_inv env fl (main_step env fl s)"
proof (cases "pc s")
  case L57
  assume "startup_inv env fl s"
  with L57 show ?thesis
    by (cases "initLogger env fl")
      (simp_all add: startup_inv_def main_step_def panicOnError_def initLogger_progress)
next
  case L65
  assume "startup_inv env fl s"
  with L65 show ?thesis
    by (cases "decode_address env (listenAddress fl)")
      (simp add: startup_inv_def main_step_def panicOnError_def NewReusablePortListener_def)
next
  case L70
  assume "startup_inv env fl s"
  with L70 show ?thesis
    by (cases "buildConfig env fl")
      (simp_all add: startup_inv_def main_step_def panicOnError_def buildConfig_progress)
qed (simp_all add: startup_inv_def main_step_def Printf_def split: option.splits)

lemma startup_inv_step: "startup_inv env fl s \<Longrightarrow> startup_inv env fl (step env fl a s)"
  by (rule step_cases) (simp_all add: startup_inv_main, simp_all add: startup_inv_def frame)

lemma startup_inv_run: "startup_inv env fl (run env fl sched init)"
  by (rule run_invariant) (simp_all add: startup_inv_init startup_inv_step)


lemma panic_cause_initLogger: "initLogger env fl = Inl e \<Longrightarrow> panic_cause env fl e"
  by (frule initLogger_errors) (simp add: panic_cause_def)

lemma panic_cause_buildConfig: "buildConfig env fl = Inl e \<Longrightarrow> panic_cause env fl e"
  by (frule buildConfig_errors) (auto simp: panic_cause_def)

lemma panic_inv_main:
  assumes "startup_inv env fl s" and "panic_inv env fl s"
  shows "panic_inv env fl (main_step env fl s)"
proof (cases "pc s")
  case L57
  with assms show ?thesis
    by (cases "initLogger env fl")
      (simp_all add: panic_inv_def main_step_def panicOnError_def panic_cause_initLogger)
next
  case L65
  with assms show ?thesis
    by (cases "decode_address env (listenAddress fl)")
      (simp add: panic_inv_def panic_cause_def main_step_def panicOnError_def
        NewReusablePortListener_def)
next
  case L70
  with assms show ?thesis
    by (cases "buildConfig env fl")
      (simp_all add: panic_inv_def main_step_def panicOnError_def panic_cause_buildConfig)
qed (use assms in \<open>auto simp: startup_inv_def panic_inv_def main_step_def Printf_def
       split: option.splits\<close>)

lemma panic_inv_step:
  "startup_inv env fl s \<Longrightarrow> panic_inv env fl s \<Longrightarrow> panic_inv env fl (step env fl a s)"
  by (rule step_cases) (simp_all add: panic_inv_main, simp_all add: panic_inv_def frame)

lemma panic_inv_run: "panic_inv env fl (run env fl sched init)"
proof -
  have "startup_inv env fl (run env fl sched init) \<and> panic_inv env fl (run env fl sched init)"
    by (rule run_invariant)
      (simp_all add: startup_inv_init startup_inv_step panic_inv_step,
        simp add: panic_inv_def init_def)
  then show ?thesis ..
qed

lemma config_inv_main:
  assumes "config_inv env fl s"
  shows "config_inv env fl (main_step env fl s)"
proof (cases "pc s")
  case L57
  with assms show ?thesis
    by (cases "initLogger env fl") (simp_all add: config_inv_def main_step_def panicOnError_def)
next
  case L65
  with assms show ?thesis
    by (cases "decode_address env (listenAddress fl)")
      (simp add: config_inv_def main_step_def panicOnError_def NewReusablePortListener_def)
next
  case L70
  with assms show ?thesis
    by (cases "buildConfig env fl") (simp_all add: config_inv_def main_step_def panicOnError_def)
qed (use assms in \<open>simp_all add: config_inv_def main_step_def Printf_def split: option.splits\<close>)

lemma config_inv_step: "config_inv env fl s \<Longrightarrow> config_inv env fl (step env fl a s)"
  by (rule step_cases) (simp_all add: config_inv_main, simp_all add: config_inv_def frame)

lemma config_inv_run: "config_inv env fl (run env fl sched init)"
  by (rule run_invariant) (simp_all add: config_inv_step, simp add: config_inv_def init_def)

lemma counter_inv_main:
  assumes "startup_inv env fl s" and "counter_inv s"
  shows "counter_inv (main_step env fl s)"
proof (cases "pc s")
  case L57
  with assms(2) show ?thesis
    by (cases "initLogger env fl")
      (simp_all add: counter_inv_def main_step_def panicOnError_def initLogger_progress)
next
  case L65
  with assms(2) show ?thesis
    by (cases "decode_address env (listenAddress fl)")
      (simp add: counter_inv_def main_step_def panicOnError_def NewReusablePortListener_def)
next
  case L70
  with assms(2) show ?thesis
    by (cases "buildConfig env fl")
      (simp_all add: counter_inv_def main_step_def panicOnError_def buildConfig_progress)
next
  case Returned
  with assms(2) show ?thesis by (simp add: main_step_def)
next
  case (Panicked e)
  with assms(2) show ?thesis by (simp add: main_step_def)
qed (use assms in \<open>auto simp: startup_inv_def counter_inv_def loop_unit_def main_step_def
       Printf_def split: option.splits if_splits\<close>)

lemma counter_inv_accept:
  assumes "counter_inv s"
  shows "counter_inv (accept_returns b s)"
proof (cases "acceptor s = Accepting")
  case False
  with assms show ?thesis by (simp add: accept_returns_def)
next
  case True
  with assms have p: "7 \<le> progress (pc s)" and w: "wg s = 1 + int (length (active s))"
    by (auto simp: counter_inv_def loop_unit_def)
  from w assms have q: "progress (pc s) < 14"
    by (auto simp: counter_inv_def)
  from True p q w assms show ?thesis
    by (simp add: counter_inv_def loop_unit_def accept_returns_def accept_error_def)
qed

lemma length_remove1_int:
  "i \<in> set xs \<Longrightarrow> int (length (remove1 i xs)) = int (length xs) - 1"
proof -
  assume m: "i \<in> set xs"
  then obtain n where n: "length xs = Suc n" by (cases xs) auto
  from m have "length (remove1 i xs) = length xs - 1" by (simp add: length_remove1)
  with n show ?thesis by simp
qed

lemma counter_inv_finish:
  assumes "counter_inv s"
  shows "counter_inv (conn_finishes i s)"
proof (cases "i \<in> set (active s)")
  case False
  with assms show ?thesis by (simp add: conn_finishes_def)
next
  case True
  then have n: "active s \<noteq> []" by auto
  with assms have a: "acceptor s \<noteq> NotLaunched" and p: "7 \<le> progress (pc s)"
    by (auto simp: counter_inv_def)
  from assms p have w: "wg s = loop_unit s + int (length (active s))"
    by (simp add: counter_inv_def)
  from n have "0 < int (length (active s))" by simp
  with w have "0 < wg s" by (simp add: loop_unit_def)
  with assms have q: "progress (pc s) < 14" by (auto simp: counter_inv_def)
  from True a p q w show ?thesis
    by (simp add: counter_inv_def loop_unit_def conn_finishes_def length_remove1_int)
qed

lemma counter_inv_sigterm: "counter_inv (sigterm_received s) = counter_inv s"
  by (simp add: counter_inv_def loop_unit_def frame)

lemma counter_inv_sigusr1: "counter_inv (sigusr1_received s) = counter_inv s"
  by (simp add: counter_inv_def loop_unit_def frame)

lemma counter_inv_step:
  "startup_inv env fl s \<Longrightarrow> counter_inv s \<Longrightarrow> counter_inv (step env fl a s)"
  by (rule step_cases)
    (simp_all add: counter_inv_main counter_inv_accept counter_inv_finish
      counter_inv_sigterm counter_inv_sigusr1)

lemma counter_inv_run: "counter_inv (run env fl sched init)"
proof -
  have "startup_inv env fl (run env fl sched init) \<and> counter_inv (run env fl sched init)"
    by (rule run_invariant)
      (simp_all add: startup_inv_init startup_inv_step counter_inv_step,
        simp add: counter_inv_def init_def)
  then show ?thesis ..
qed


lemma shutdown_inv_main:
  assumes "startup_inv env fl s" and "shutdown_inv s"
  shows "shutdown_inv (main_step env fl s)"
proof (cases "pc s")
  case L57
  with assms(2) show ?thesis
    by (cases "initLogger env fl")
      (simp_all add: shutdown_inv_def main_step_def panicOnError_def initLogger_progress)
next
  case L65
  with assms(2) show ?thesis
    by (cases "decode_address env (listenAddress fl)")
      (simp add: shutdown_inv_def main_step_def panicOnError_def NewReusablePortListener_def)
next
  case L70
  with assms(2) show ?thesis
    by (cases "buildConfig env fl")
      (simp_all add: shutdown_inv_def main_step_def panicOnError_def buildConfig_progress)
next
  case Returned
  with assms(2) show ?thesis by (simp add: main_step_def)
next
  case (Panicked e)
  with assms(2) show ?thesis by (simp add: main_step_def)
qed (use assms in \<open>auto simp: startup_inv_def shutdown_inv_def main_step_def
       Printf_def split: option.splits if_splits\<close>)

lemma shutdown_inv_accept: "shutdown_inv s \<Longrightarrow> shutdown_inv (accept_returns b s)"
  by (auto simp: shutdown_inv_def accept_returns_def accept_error_def)

lemma shutdown_inv_finish: "shutdown_inv (conn_finishes i s) = shutdown_inv s"
  by (simp add: shutdown_inv_def frame)

lemma shutdown_inv_sigterm: "shutdown_inv s \<Longrightarrow> shutdown_inv (sigterm_received s)"
  by (auto simp: shutdown_inv_def sigterm_received_def)

lemma shutdown_inv_sigusr1: "shutdown_inv (sigusr1_received s) = shutdown_inv s"
  by (simp add: shutdown_inv_def frame)

lemma shutdown_inv_step:
  "startup_inv env fl s \<Longrightarrow> shutdown_inv s \<Longrightarrow> shutdown_inv (step env fl a s)"
  by (rule step_cases)
    (simp_all add: shutdown_inv_main shutdown_inv_accept shutdown_inv_finish
      shutdown_inv_sigterm shutdown_inv_sigusr1)

lemma shutdown_inv_run: "shutdown_inv (run env fl sched init)"
proof -
  have "startup_inv env fl (run env fl sched init) \<and> shutdown_inv (run env fl sched init)"
    by (rule run_invariant)
      (simp_all add: startup_inv_init startup_inv_step shutdown_inv_step,
        simp add: shutdown_inv_def init_def)
  then show ?thesis ..
qed

lemma initLogger_prefix: "initLogger env fl = Inr lg \<Longrightarrow> prefix lg = pid_prefix (pid env)"
  by (auto simp: initLogger_def SetPrefix_def log_New_def split: if_splits)

lemma initLogger_dest:
  "initLogger env fl = Inr lg \<Longrightarrow>
     dest lg = (if useSyslog fl then Syslog LOG_NOTICE_LOG_DAEMON (program_name env) else Stderr)"
  by (auto simp: initLogger_def SetPrefix_def log_New_def split: if_splits)

lemma log_line_header:
  assumes "prefix lg = pid_prefix (pid env)"
    and "dest lg = (if useSyslog fl then Syslog LOG_NOTICE_LOG_DAEMON (program_name env) else Stderr)"
  shows "\<exists>rest. log_line env lg n msg = line_header env fl n @ pid_prefix (pid env) @ rest"
  using assms
  by (cases "useSyslog fl") (simp_all add: log_line_def line_header_def syslog_write_def log_entry_def)

lemma take_header: "l = h @ rest \<Longrightarrow> take (length h) l = h"
  by simp

lemma log_line_take:
  assumes "prefix lg = pid_prefix (pid env)"
    and "dest lg = (if useSyslog fl then Syslog LOG_NOTICE_LOG_DAEMON (program_name env) else Stderr)"
  shows "take (length (line_header env fl n @ pid_prefix (pid env))) (log_line env lg n msg)
           = line_header env fl n @ pid_prefix (pid env)"
proof -
  from log_line_header [OF assms, of n msg] obtain rest
    where "log_line env lg n msg = (line_header env fl n @ pid_prefix (pid env)) @ rest"
    by auto
  then show ?thesis by (rule take_header)
qed

lemma log_inv_Printf:
  assumes "log_inv env fl s"
  shows "log_inv env fl (Printf env msg s)"
proof (cases "the_logger s")
  case None
  with assms show ?thesis by (simp add: log_inv_def Printf_def)
next
  case (Some lg)
  with assms have p: "prefix lg = pid_prefix (pid env)"
    and d: "dest lg = (if useSyslog fl then Syslog LOG_NOTICE_LOG_DAEMON (program_name env)
                       else Stderr)"
    by (simp_all add: log_inv_def)
  have "take (length (line_header env fl n @ pid_prefix (pid env)))
          ((log_out s @ [log_line env lg (length (log_out s)) msg]) ! n)
        = line_header env fl n @ pid_prefix (pid env)"
    if "n < Suc (length (log_out s))" for n
  proof (cases "n < length (log_out s)")
    case True
    with assms show ?thesis by (simp add: log_inv_def nth_append)
  next
    case False
    with that have "n = length (log_out s)" by simp
    then show ?thesis using log_line_take [OF p d] by (simp add: nth_append)
  qed
  with assms Some show ?thesis by (simp add: log_inv_def Printf_def)
qed

lemma log_inv_pc: "log_inv env fl (s\<lparr>pc := p\<rparr>) = log_inv env fl s"
  by (simp add: log_inv_def)

lemma log_inv_main:
  assumes "log_inv env fl s"
  shows "log_inv env fl (main_step env fl s)"
proof (cases "pc s")
  case L57
  with assms show ?thesis
    by (cases "initLogger env fl")
      (simp_all add: log_inv_def main_step_def panicOnError_def initLogger_prefix
        initLogger_dest)
next
  case L65
  with assms show ?thesis
    by (cases "decode_address env (listenAddress fl)")
      (simp add: log_inv_def main_step_def panicOnError_def NewReusablePortListener_def)
next
  case L70
  with assms show ?thesis
    by (cases "buildConfig env fl") (simp_all add: log_inv_def main_step_def panicOnError_def)
next
  case L71
  with assms show ?thesis by (simp add: main_step_def log_inv_Printf log_inv_pc)
next
  case L88
  with assms show ?thesis by (simp add: main_step_def log_inv_Printf log_inv_pc)
next
  case L92
  with assms show ?thesis by (simp add: main_step_def log_inv_Printf log_inv_pc)
next
  case L96
  with assms show ?thesis by (simp add: main_step_def log_inv_Printf log_inv_pc)
qed (use assms in \<open>simp_all add: log_inv_def main_step_def\<close>)

lemma log_inv_step: "log_inv env fl s \<Longrightarrow> log_inv env fl (step env fl a s)"
  by (rule step_cases) (simp_all add: log_inv_main, simp_all add: log_inv_def frame)

lemma log_inv_run: "log_inv env fl (run env fl sched init)"
  by (rule run_invariant) (simp_all add: log_inv_step, simp add: log_inv_def init_def)


lemma success_inv_main:
  assumes "startup_inv env fl s" and "success_inv env fl s"
  shows "success_inv env fl (main_step env fl s)"
proof (cases "pc s")
  case L57
  with assms(2) show ?thesis
    by (cases "initLogger env fl")
      (simp_all add: success_inv_def main_step_def panicOnError_def initLogger_progress)
next
  case L65
  with assms(2) show ?thesis
    by (cases "decode_address env (listenAddress fl)")
      (simp add: success_inv_def main_step_def panicOnError_def NewReusablePortListener_def)
next
  case L70
  with assms(2) show ?thesis
    by (cases "buildConfig env fl")
      (simp_all add: success_inv_def main_step_def panicOnError_def buildConfig_progress)
next
  case Returned
  with assms(2) show ?thesis by (simp add: main_step_def)
next
  case (Panicked e)
  with assms(2) show ?thesis by (simp add: main_step_def)
qed (use assms in \<open>auto simp: startup_inv_def success_inv_def main_step_def
       Printf_def split: option.splits if_splits\<close>)

lemma success_inv_step:
  "startup_inv env fl s \<Longrightarrow> success_inv env fl s \<Longrightarrow> success_inv env fl (step env fl a s)"
  by (rule step_cases) (simp_all add: success_inv_main, simp_all add: success_inv_def frame)

lemma success_inv_run: "success_inv env fl (run env fl sched init)"
proof -
  have "startup_inv env fl (run env fl sched init) \<and> success_inv env fl (run env fl sched init)"
    by (rule run_invariant)
      (simp_all add: startup_inv_init startup_inv_step success_inv_step,
        simp add: success_inv_def init_def)
  then show ?thesis ..
qed

lemma step_terminated: "terminated s \<Longrightarrow> step env fl a s = s"
  by (simp add: step_def)

lemma run_terminated: "terminated s \<Longrightarrow> run env fl sched s = s"
  by (induction sched) (simp_all add: step_terminated)

lemma progress_ge_12: "(12 \<le> progress p) = (p = L92 \<or> p = L94 \<or> p = L96 \<or> p = Returned)"
proof (cases p)
  case (Panicked e)
  then show ?thesis by (cases e) simp_all
qed simp_all


lemma progress_lt_3_terminated:
  "progress (pc s) < 3 \<Longrightarrow> terminated s \<Longrightarrow> \<exists>e. pc s = Panicked e"
  by (cases "pc s") (simp_all add: terminated_def)

lemma buildConfig_unreadable_key: "read_file env (privateKeyPath fl) = None \<Longrightarrow> buildConfig env fl = Inl KeyMaterialError"
  by (simp add: buildConfig_def)

lemma three_main_steps:
  assumes "buildConfig env fl = Inl e"
  shows "terminated (run env fl [Main, Main, Main] init)"
proof (cases "initLogger env fl")
  case (Inl e1)
  then show ?thesis
    by (simp add: step_def terminated_def init_def main_step_def panicOnError_def)
next
  case (Inr lg)
  obtain n a where d: "decode_address env (listenAddress fl) = (n, a)"
    by (cases "decode_address env (listenAddress fl)")
  show ?thesis
  proof (cases "can_bind env n a")
    case False
    with Inr d show ?thesis
      by (simp add: step_def terminated_def init_def main_step_def panicOnError_def
          NewReusablePortListener_def)
  next
    case True
    with Inr d assms show ?thesis
      by (simp add: step_def terminated_def init_def main_step_def panicOnError_def
          NewReusablePortListener_def)
  qed
qed

lemma terminated_active: "terminated (run env fl sched init) \<Longrightarrow> active (run env fl sched init) = []"
proof -
  let ?s = "run env fl sched init"
  assume t: "terminated ?s"
  have co: "counter_inv ?s" by (rule counter_inv_run)
  show "active ?s = []"
  proof (cases "pc ?s")
    case Returned
    with co have "wg ?s = 0" and "wg ?s = loop_unit ?s + int (length (active ?s))"
      by (simp_all add: counter_inv_def)
    then show ?thesis by (simp add: loop_unit_def split: if_splits)
  next
    case (Panicked e)
    then have "progress (pc ?s) < 7" by (cases e) simp_all
    with co show ?thesis by (simp add: counter_inv_def)
  qed (use t in \<open>simp_all add: terminated_def\<close>)
qed

lemma active_main_step: "active (main_step env fl s) = active s"
  by (cases "pc s")
    (simp_all add: main_step_def panicOnError_def Printf_def
      split: sum.splits prod.splits option.splits)

lemma active_step_keeps:
  assumes "i \<in> set (active s)" and "a \<noteq> Finish i"
  shows "i \<in> set (active (step env fl a s))"
proof (cases "terminated s")
  case True
  with assms show ?thesis by (simp add: step_def)
next
  case False
  show ?thesis
  proof (cases a)
    case Main
    with False assms show ?thesis by (simp add: step_def active_main_step)
  next
    case (AcceptReturns b)
    with False assms show ?thesis
      by (simp add: step_def accept_returns_def accept_error_def)
  next
    case (Finish j)
    with assms have "j \<noteq> i" by simp
    with assms have "i \<in> set (remove1 j (active s))" by simp
    with False Finish assms show ?thesis by (simp add: step_def conn_finishes_def)
  next
    case (Signal g)
    with False assms show ?thesis by (cases g) (simp_all add: step_def frame)
  qed
qed

lemma active_run_keeps:
  "i \<in> set (active s) \<Longrightarrow> Finish i \<notin> set sched \<Longrightarrow> i \<in> set (active (run env fl sched s))"
proof (induction sched arbitrary: s)
  case Nil
  then show ?case by simp
next
  case (Cons a sched)
  from Cons.prems have "a \<noteq> Finish i" by auto
  with Cons.prems have "i \<in> set (active (step env fl a s))" by (simp add: active_step_keeps)
  moreover from Cons.prems have "Finish i \<notin> set sched" by simp
  ultimately show ?case using Cons.IH by simp
qed

lemma sigterm_idem: "sigterm_received (sigterm_received s) = sigterm_received s"
  by (simp add: sigterm_received_def)

lemma main_step_frame:
  "listener_closed (main_step env fl s) = listener_closed s"
  "next_conn (main_step env fl s) = next_conn s"
  "close_calls (main_step env fl s) = close_calls s"
  "spawned (main_step env fl s) = spawned s"
  by (cases "pc s";
      simp add: main_step_def panicOnError_def Printf_def
        split: sum.splits prod.splits option.splits)+

lemma closed_step:
  assumes "listener_closed s"
  shows "listener_closed (step env fl a s)
     \<and> set (active (step env fl a s)) \<subseteq> set (active s)
     \<and> next_conn (step env fl a s) = next_conn s"
proof (rule step_cases)
  show "listener_closed (main_step env fl s)
     \<and> set (active (main_step env fl s)) \<subseteq> set (active s)
     \<and> next_conn (main_step env fl s) = next_conn s"
    using assms by (simp add: main_step_frame active_main_step)
next
  fix b
  show "listener_closed (accept_returns b s)
     \<and> set (active (accept_returns b s)) \<subseteq> set (active s)
     \<and> next_conn (accept_returns b s) = next_conn s"
    using assms by (simp add: accept_returns_def accept_error_def)
next
  fix j
  show "listener_closed (conn_finishes j s)
     \<and> set (active (conn_finishes j s)) \<subseteq> set (active s)
     \<and> next_conn (conn_finishes j s) = next_conn s"
    using assms set_remove1_subset [of j "active s"] by (simp add: conn_finishes_def)
next
  show "listener_closed (sigterm_received s)
     \<and> set (active (sigterm_received s)) \<subseteq> set (active s)
     \<and> next_conn (sigterm_received s) = next_conn s"
    using assms by (simp add: sigterm_received_def)
next
  show "listener_closed (sigusr1_received s)
     \<and> set (active (sigusr1_received s)) \<subseteq> set (active s)
     \<and> next_conn (sigusr1_received s) = next_conn s"
    using assms by (simp add: frame)
qed (use assms in simp)

lemma closed_run:
  "listener_closed s \<Longrightarrow>
     listener_closed (run env fl sched s)
     \<and> set (active (run env fl sched s)) \<subseteq> set (active s)
     \<and> next_conn (run env fl sched s) = next_conn s"
proof (induction sched arbitrary: s)
  case Nil
  then show ?case by simp
next
  case (Cons a sched)
  from closed_step [OF Cons.prems, of env fl a]
  have c: "listener_closed (step env fl a s)"
    and a: "set (active (step env fl a s)) \<subseteq> set (active s)"
    and n: "next_conn (step env fl a s) = next_conn s" by simp_all
  from Cons.IH [OF c] a n show ?case by auto
qed

lemma startup_failure_None:
  "(startup_failure env fl = None) =
     ((\<exists>lg. initLogger env fl = Inr lg)
      \<and> can_bind env (fst (decode_address env (listenAddress fl)))
           (snd (decode_address env (listenAddress fl)))
      \<and> (\<exists>cfg. buildConfig env fl = Inr cfg))"
  by (cases "decode_address env (listenAddress fl)")
    (auto simp: startup_failure_def NewReusablePortListener_def split: sum.splits)

lemma startup_failure_progress:
  assumes "startup_failure env fl = Some e"
  shows "progress (pc (run env fl sched init)) < 3"
proof (rule ccontr)
  assume "\<not> progress (pc (run env fl sched init)) < 3"
  with success_inv_run [of env fl sched] have "startup_failure env fl = None"
    by (simp add: success_inv_def startup_failure_None)
  with assms show False by simp
qed

lemma panic_cause_failure: "panic_cause env fl e \<Longrightarrow> startup_failure env fl \<noteq> None"
  by (cases e) (auto simp: panic_cause_def startup_failure_None)

lemma three_steps_failure:
  assumes "startup_failure env fl = Some e"
  shows "pc (run env fl [Main, Main, Main] init) = Panicked e"
proof (cases "initLogger env fl")
  case (Inl e1)
  with assms show ?thesis
    by (simp add: startup_failure_def step_def terminated_def init_def main_step_def
        panicOnError_def)
next
  case (Inr lg)
  obtain n a where d: "decode_address env (listenAddress fl) = (n, a)"
    by (cases "decode_address env (listenAddress fl)")
  show ?thesis
  proof (cases "can_bind env n a")
    case False
    with Inr d assms show ?thesis
      by (simp add: startup_failure_def step_def terminated_def init_def main_step_def
          panicOnError_def NewReusablePortListener_def)
  next
    case True
    with Inr d assms show ?thesis
      by (cases "buildConfig env fl")
        (simp_all add: startup_failure_def step_def terminated_def init_def main_step_def
          panicOnError_def NewReusablePortListener_def)
  qed
qed

lemma ou_accepted_iff:
  "ou_accepted acc chain =
     (\<exists>c \<in> set chain. \<exists>ou \<in> set (organizationalUnit c). ou \<in> set acc)"
  by (simp add: ou_accepted_def list_ex_iff)

lemma buildConfig_policy:
  "buildConfig env fl = Inr cfg \<Longrightarrow> require_client_cert cfg \<and> accepted_ous cfg = clientNames fl"
  by (auto simp: buildConfig_def split: option.splits if_splits)

section \<open>The sample configuration, run\<close>

lemma sample_pid_prefix: "pid_prefix 4321 = ''[ 4321] ''"
  by code_simp

lemma sample_fmt_ppid: "fmt_d 77 = ''77''"
  by code_simp

lemma sample_startup: "run sample_env sample_flags startup_schedule init = sample_listening"
  by (simp add: startup_schedule_def step_def terminated_def init_def
      main_step_def panicOnError_def initLogger_def log_New_def SetPrefix_def
      LstdFlags_Lmicroseconds_def sample_env_def sample_flags_def sample_pid_prefix
      sample_fmt_ppid NewReusablePortListener_def
      buildConfig_def Printf_def log_line_def log_entry_def sample_listening_def sample_config_def)

lemma sample_drains:
  "run sample_env sample_flags [AcceptReturns True, AcceptReturns True, Signal SIGTERM]
     sample_listening = sample_draining"
  by (simp add: step_def terminated_def accept_returns_def sigterm_received_def
      sample_listening_def sample_draining_def)

lemma sample_draining_run: "run sample_env sample_flags draining_schedule init = sample_draining"
  by (simp only: draining_schedule_def run_append sample_startup sample_drains)

lemma sample_finishes:
  "run sample_env sample_flags finishing_schedule sample_draining =
     sample_draining\<lparr>pc := Returned, wg := 0, stopper := 0, active := [],
       acceptor := StoppedOnNotification,
       log_out := log_out sample_listening @
         [''[ 4321] 2015/11/02 10:00:00.000000 all connections closed, shutting down''
            @ [CHR 0x0A]]\<rparr>"
  by (simp add: finishing_schedule_def step_def terminated_def accept_returns_def
      accept_error_def conn_finishes_def main_step_def Printf_def log_line_def log_entry_def
      sample_listening_def sample_draining_def sample_env_def)

lemma sample_blocked:
  "run sample_env sample_flags [AcceptReturns False, Finish 1, Main, Main, Main] sample_draining =
     sample_draining\<lparr>wg := 1, stopper := 0, active := [0],
       acceptor := StoppedOnNotification\<rparr>"
  by (simp add: step_def terminated_def accept_returns_def
      accept_error_def conn_finishes_def main_step_def
      sample_listening_def sample_draining_def)

lemma nokey_two_steps:
  "run sample_env sample_flags_nokey [Main, Main] init =
     init\<lparr>pc := L70,
          the_logger := Some \<lparr>dest = Stderr, prefix = pid_prefix 4321, lflags = 7\<rparr>,
          raw_listener := True\<rparr>"
  by (simp add: step_def terminated_def init_def main_step_def panicOnError_def
      initLogger_def log_New_def SetPrefix_def LstdFlags_Lmicroseconds_def
      sample_env_def sample_flags_nokey_def sample_flags_def NewReusablePortListener_def)

lemma nokey_three_steps:
  "run sample_env sample_flags_nokey [Main, Main, Main] init =
     init\<lparr>pc := Panicked KeyMaterialError,
          the_logger := Some \<lparr>dest = Stderr, prefix = pid_prefix 4321, lflags = 7\<rparr>,
          raw_listener := True\<rparr>"
  by (simp add: step_def terminated_def init_def main_step_def panicOnError_def
      initLogger_def log_New_def SetPrefix_def LstdFlags_Lmicroseconds_def
      sample_env_def sample_flags_nokey_def sample_flags_def NewReusablePortListener_def
      buildConfig_def)

lemma sample_priority: "itoa LOG_NOTICE_LOG_DAEMON = ''29''"
  unfolding LOG_NOTICE_LOG_DAEMON_def by code_simp

lemma sample_fmt_pid: "fmt_d 4321 = ''4321''"
  by code_simp

lemma sample_syslog_line:
  "log_out (run sample_env sample_flags_syslog listening_schedule init) =
     [''<29>Nov  2 10:00:00 ghostunnel[4321]: [ 4321] 2015/11/02 10:00:00.000000 listening on 127.0.0.1:9443''
        @ [CHR 0x0A]]"
  by (simp add: listening_schedule_def step_def terminated_def init_def
      main_step_def panicOnError_def initLogger_def log_New_def SetPrefix_def
      LstdFlags_Lmicroseconds_def sample_env_def sample_flags_syslog_def sample_flags_def
      sample_pid_prefix sample_priority sample_fmt_pid NewReusablePortListener_def
      buildConfig_def Printf_def log_line_def log_entry_def syslog_write_def
      syslog_header_def)


section \<open>The claims\<close>

text \<open>
  Claim C1, as amended. With a private key file that cannot be read, no execution ever
  builds the TLS listener, launches the accept loop, accepts a connection or signals a
  parent: the process is in STARTING until it is TERMINATED, its main goroutine panics
  within its first three statements, and the exit status is 2. The listening socket
  itself is bound by then: line 66 binds it, and the key is loaded at line 70, so the
  process that panics on the key has a bound socket, open until the exit.
\<close>

theorem unreadable_key_never_listens:
  assumes "read_file env (privateKeyPath fl) = None"
  shows "acceptor (run env fl sched init) = NotLaunched
     \<and> listener_config (run env fl sched init) = None
     \<and> active (run env fl sched init) = []
     \<and> kills (run env fl sched init) = []
     \<and> (lifecycle (run env fl sched init) = STARTING
          \<or> lifecycle (run env fl sched init) = TERMINATED)
     \<and> exit_code (run env fl sched init) \<noteq> Some 0
     \<and> (pc (run env fl sched init) = Panicked KeyMaterialError) =
         (raw_listener (run env fl sched init) \<and> terminated (run env fl sched init))
     \<and> terminated (run env fl ([Main, Main, Main] @ sched) init)
     \<and> exit_code (run env fl ([Main, Main, Main] @ sched) init) = Some 2"
proof -
  let ?s = "run env fl sched init"
  from assms have b: "buildConfig env fl = Inl KeyMaterialError" by (rule buildConfig_unreadable_key)
  have "success_inv env fl ?s" by (rule success_inv_run)
  with b have p: "progress (pc ?s) < 3" by (auto simp: success_inv_def)
  have st: "startup_inv env fl ?s" by (rule startup_inv_run)
  have sh: "shutdown_inv ?s" by (rule shutdown_inv_run)
  have co: "counter_inv ?s" by (rule counter_inv_run)
  have pa: "panic_inv env fl ?s" by (rule panic_inv_run)
  from st p have 1: "acceptor ?s = NotLaunched" and 2: "listener_config ?s = None"
    and 4: "kills ?s = []"
    by (simp_all add: startup_inv_def)
  from co 1 have 3: "active ?s = []" by (simp add: counter_inv_def)
  from sh p have c: "\<not> listener_closed ?s" by (auto simp: shutdown_inv_def)
  with 1 have 5: "lifecycle ?s = STARTING \<or> lifecycle ?s = TERMINATED"
    by (simp add: lifecycle_def)
  from p have 6: "exit_code ?s \<noteq> Some 0"
    by (cases "pc ?s") (simp_all add: exit_code_def)
  have 7: "(pc ?s = Panicked KeyMaterialError) = (raw_listener ?s \<and> terminated ?s)"
  proof
    assume k: "pc ?s = Panicked KeyMaterialError"
    with st show "raw_listener ?s \<and> terminated ?s"
      by (simp add: startup_inv_def terminated_def)
  next
    assume r: "raw_listener ?s \<and> terminated ?s"
    with p obtain e where e: "pc ?s = Panicked e" using progress_lt_3_terminated by blast
    with r st have "2 \<le> progress (Panicked e)" by (simp add: startup_inv_def)
    moreover from pa e have "panic_cause env fl e" by (simp add: panic_inv_def)
    ultimately have "e = KeyMaterialError" using b
      by (cases e) (simp_all add: panic_cause_def)
    with e show "pc ?s = Panicked KeyMaterialError" by simp
  qed
  let ?t = "run env fl [Main, Main, Main] init"
  from b have t: "terminated ?t" by (rule three_main_steps)
  then have r: "run env fl ([Main, Main, Main] @ sched) init = ?t"
    by (simp only: run_append run_terminated)
  have "success_inv env fl ?t" by (rule success_inv_run)
  with b have "progress (pc ?t) < 3" by (auto simp: success_inv_def)
  then have "\<exists>e. pc ?t = Panicked e" using t by (rule progress_lt_3_terminated)
  then have 9: "exit_code ?t = Some 2" by (auto simp: exit_code_def)
  from 1 2 3 4 5 6 7 t 9 r show ?thesis by simp
qed

theorem unreadable_key_never_listens_witness:
  "read_file sample_env (privateKeyPath sample_flags_nokey) = None
   \<and> acceptor (run sample_env sample_flags_nokey [Main, Main, Main] init) = NotLaunched
   \<and> pc (run sample_env sample_flags_nokey [Main, Main, Main] init) = Panicked KeyMaterialError
   \<and> exit_code (run sample_env sample_flags_nokey [Main, Main, Main] init) = Some 2"
proof -
  have h: "read_file sample_env (privateKeyPath sample_flags_nokey) = None"
    by (simp add: sample_env_def sample_flags_nokey_def sample_flags_def)
  from unreadable_key_never_listens [OF h, of "[Main, Main, Main]"] h show ?thesis
    by (simp add: nokey_three_steps exit_code_def del: run.simps)
qed

text \<open>
  Claim C1 as stated, that the process exits before any listener is bound, fails: in
  the sample configuration with an unreadable key, the socket is bound after the second
  statement of \<^verbatim>\<open>main\<close>, while the process is running, and the panic on the key material
  comes with the third.
\<close>

theorem unreadable_key_exits_before_bind_counterexample:
  "read_file sample_env (privateKeyPath sample_flags_nokey) = None
   \<and> raw_listener (run sample_env sample_flags_nokey [Main, Main] init)
   \<and> \<not> terminated (run sample_env sample_flags_nokey [Main, Main] init)
   \<and> pc (run sample_env sample_flags_nokey [Main, Main, Main] init) = Panicked KeyMaterialError
   \<and> raw_listener (run sample_env sample_flags_nokey [Main, Main, Main] init)"
  by (simp add: nokey_two_steps nokey_three_steps terminated_def del: run.simps)
    (simp add: sample_env_def sample_flags_nokey_def sample_flags_def)

text \<open>
  Claim C2. The configuration that line 70 gives the TLS listener is the one that
  \<^verbatim>\<open>buildConfig\<close> returned; it requires a client certificate and its accepted units are
  the ones of the flags. A handshake succeeds only for a presented chain that is not
  empty and verifies against the trust pool, and for such a chain it succeeds if and only
  if some certificate of the chain carries an organizational unit of the accepted set.
  A chain whose units are disjoint from the accepted set is rejected: the task of the
  connection closes it and decrements the counter, without dialling the backend and
  without relaying.
\<close>

theorem handshake_succeeds_iff_accepted_ou:
  assumes "listener_config (run env fl sched init) = Some cfg"
  shows "buildConfig env fl = Inr cfg
     \<and> require_client_cert cfg
     \<and> accepted_ous cfg = clientNames fl
     \<and> ((\<exists>v. handshake env cfg chain = Inr v) \<longrightarrow>
          chain \<noteq> [] \<and> verify_chain env (trust_pool cfg) chain)
     \<and> (chain \<noteq> [] \<and> verify_chain env (trust_pool cfg) chain \<longrightarrow>
          (handshake env cfg chain = Inr chain) =
          (\<exists>c \<in> set chain. \<exists>ou \<in> set (organizationalUnit c). ou \<in> set (clientNames fl)))
     \<and> ((\<Union>c \<in> set chain. set (organizationalUnit c)) \<inter> set (clientNames fl) = {} \<longrightarrow>
          (\<exists>e. handshake env cfg chain = Inl e
               \<and> handle env cfg backend chain = [HandshakeFailed e, CloseClient, Decrement])
          \<and> Relay \<notin> set (handle env cfg backend chain)
          \<and> DialBackend backend \<notin> set (handle env cfg backend chain))"
proof -
  from config_inv_run [of env fl sched] assms have b: "buildConfig env fl = Inr cfg"
    by (simp add: config_inv_def)
  then have r: "require_client_cert cfg" and o: "accepted_ous cfg = clientNames fl"
    using buildConfig_policy by blast+
  from r have 1: "(\<exists>v. handshake env cfg chain = Inr v) \<longrightarrow>
          chain \<noteq> [] \<and> verify_chain env (trust_pool cfg) chain"
    by (auto simp: handshake_def split: if_splits)
  from r o have 2: "chain \<noteq> [] \<and> verify_chain env (trust_pool cfg) chain \<longrightarrow>
          (handshake env cfg chain = Inr chain) =
          (\<exists>c \<in> set chain. \<exists>ou \<in> set (organizationalUnit c). ou \<in> set (clientNames fl))"
    by (simp add: handshake_def ou_accepted_iff)
  have 3: "(\<Union>c \<in> set chain. set (organizationalUnit c)) \<inter> set (clientNames fl) = {} \<longrightarrow>
          (\<exists>e. handshake env cfg chain = Inl e
               \<and> handle env cfg backend chain = [HandshakeFailed e, CloseClient, Decrement])
          \<and> Relay \<notin> set (handle env cfg backend chain)
          \<and> DialBackend backend \<notin> set (handle env cfg backend chain)"
  proof
    assume d: "(\<Union>c \<in> set chain. set (organizationalUnit c)) \<inter> set (clientNames fl) = {}"
    then have "\<not> ou_accepted (accepted_ous cfg) chain"
      unfolding ou_accepted_iff o by blast
    then have "\<exists>e. handshake env cfg chain = Inl e"
      by (simp add: handshake_def)
    then obtain e where e: "handshake env cfg chain = Inl e" ..
    then have "handle env cfg backend chain = [HandshakeFailed e, CloseClient, Decrement]"
      by (simp add: handle_def)
    with e show "(\<exists>e. handshake env cfg chain = Inl e
               \<and> handle env cfg backend chain = [HandshakeFailed e, CloseClient, Decrement])
          \<and> Relay \<notin> set (handle env cfg backend chain)
          \<and> DialBackend backend \<notin> set (handle env cfg backend chain)"
      by simp
  qed
  from b r o 1 2 3 show ?thesis by blast
qed

theorem handshake_succeeds_iff_accepted_ou_witness:
  "listener_config (run sample_env sample_flags startup_schedule init) = Some sample_config
   \<and> handshake sample_env sample_config [ops_cert] = Inr [ops_cert]
   \<and> handshake sample_env sample_config [guest_cert] = Inl NoAcceptedOU
   \<and> handle sample_env sample_config ''127.0.0.1:8080'' [guest_cert]
        = [HandshakeFailed NoAcceptedOU, CloseClient, Decrement]
   \<and> handle sample_env sample_config ''127.0.0.1:8080'' [ops_cert]
        = [HandshakeDone, DialBackend ''127.0.0.1:8080'', Relay, CloseClient, CloseBackend, Decrement]"
proof -
  have h: "listener_config (run sample_env sample_flags startup_schedule init) = Some sample_config"
    unfolding sample_startup by (simp add: sample_listening_def)
  have v: "[ops_cert] \<noteq> [] \<and> verify_chain sample_env (trust_pool sample_config) [ops_cert]"
    by (simp add: sample_env_def)
  have m: "\<exists>c \<in> set [ops_cert]. \<exists>ou \<in> set (organizationalUnit c). ou \<in> set (clientNames sample_flags)"
    by (simp add: ops_cert_def sample_flags_def)
  have d: "(\<Union>c \<in> set [guest_cert]. set (organizationalUnit c)) \<inter> set (clientNames sample_flags) = {}"
    by (simp add: guest_cert_def sample_flags_def)
  from handshake_succeeds_iff_accepted_ou [OF h, of "[ops_cert]"] v m
  have 1: "handshake sample_env sample_config [ops_cert] = Inr [ops_cert]" by blast
  from handshake_succeeds_iff_accepted_ou [OF h, of "[guest_cert]" "''127.0.0.1:8080''"] d
  have "\<exists>e. handshake sample_env sample_config [guest_cert] = Inl e" by blast
  then have 2: "handshake sample_env sample_config [guest_cert] = Inl NoAcceptedOU"
    by (simp add: handshake_def sample_config_def sample_env_def split: if_splits)
  from 2 have 3: "handle sample_env sample_config ''127.0.0.1:8080'' [guest_cert]
        = [HandshakeFailed NoAcceptedOU, CloseClient, Decrement]"
    by (simp add: handle_def)
  from 1 have 4: "handle sample_env sample_config ''127.0.0.1:8080'' [ops_cert]
        = [HandshakeDone, DialBackend ''127.0.0.1:8080'', Relay, CloseClient, CloseBackend, Decrement]"
    by (simp add: handle_def sample_env_def)
  from h 1 2 3 4 show ?thesis by blast
qed

text \<open>
  Claim C3. In every execution the main goroutine signals at most once, and what it
  sends is SIGTERM to its parent's process ID. It has sent it only if the graceful-child
  flag is set, and then the TLS listener has been built and the accept loop launched;
  nothing is sent while the process is STARTING. Once the startup has passed lines 86 to
  90 the signal has been sent if and only if the flag is set; with the flag set the
  statement of line 89 sends it.
\<close>

theorem sigterm_to_parent_iff_graceful_child:
  assumes "s = run env fl sched init"
  shows "(kills s \<noteq> [] \<longrightarrow>
            gracefulChild fl \<and> kills s = [(ppid env, SIGTERM)]
            \<and> listener_config s \<noteq> None \<and> acceptor s \<noteq> NotLaunched)
     \<and> (pc s = L92 \<or> pc s = L94 \<or> pc s = L96 \<or> pc s = Returned \<longrightarrow>
            (kills s = [(ppid env, SIGTERM)]) = gracefulChild fl)
     \<and> (pc s = L89 \<longrightarrow> gracefulChild fl \<and> kills s = []
            \<and> kills (step env fl Main s) = [(ppid env, SIGTERM)])
     \<and> (lifecycle s = STARTING \<longrightarrow> kills s = [])"
proof -
  have st: "startup_inv env fl s" unfolding assms by (rule startup_inv_run)
  have a: "kills s \<noteq> [] \<longrightarrow>
            gracefulChild fl \<and> kills s = [(ppid env, SIGTERM)]
            \<and> listener_config s \<noteq> None \<and> acceptor s \<noteq> NotLaunched"
    using st by (auto simp: startup_inv_def split: if_splits)
  have b: "pc s = L92 \<or> pc s = L94 \<or> pc s = L96 \<or> pc s = Returned \<longrightarrow>
            (kills s = [(ppid env, SIGTERM)]) = gracefulChild fl"
    using st by (auto simp: startup_inv_def)
  have c: "pc s = L89 \<longrightarrow> gracefulChild fl \<and> kills s = []
            \<and> kills (step env fl Main s) = [(ppid env, SIGTERM)]"
    using st by (auto simp: startup_inv_def step_def terminated_def main_step_def)
  have d: "lifecycle s = STARTING \<longrightarrow> kills s = []"
    using st by (auto simp: startup_inv_def lifecycle_def split: if_splits)
  from a b c d show ?thesis by blast
qed

theorem sigterm_to_parent_iff_graceful_child_witness:
  "sample_listening = run sample_env sample_flags startup_schedule init
   \<and> gracefulChild sample_flags
   \<and> pc sample_listening = L94
   \<and> kills sample_listening = [(ppid sample_env, SIGTERM)]
   \<and> listener_config sample_listening \<noteq> None
   \<and> acceptor sample_listening \<noteq> NotLaunched"
proof -
  have h: "sample_listening = run sample_env sample_flags startup_schedule init"
    by (simp only: sample_startup)
  have g: "gracefulChild sample_flags" by (simp add: sample_flags_def)
  have p: "pc sample_listening = L94" by (simp add: sample_listening_def)
  note c = sigterm_to_parent_iff_graceful_child [OF h]
  from c p g have k: "kills sample_listening = [(ppid sample_env, SIGTERM)]" by blast
  then have "kills sample_listening \<noteq> []" by simp
  with c have "listener_config sample_listening \<noteq> None
      \<and> acceptor sample_listening \<noteq> NotLaunched" by blast
  with h g p k show ?thesis by blast
qed

text \<open>
  Claim C4. In every execution, a process that has exited has no active connection, and
  the main goroutine has returned only with the join counter at zero; the counter is
  never below the number of active connections, and while a connection is active the
  wait of line 94 does not return. So if connection \<open>i\<close> is active at some point of an
  execution, whatever happens from there on and in whatever order, the process does not
  exit unless the task of \<open>i\<close> has ended first.
\<close>

theorem no_exit_while_connections_active:
  assumes "s = run env fl sched init"
  shows "(terminated s \<longrightarrow> active s = [])
     \<and> (pc s = Returned \<longrightarrow> wg s = 0)
     \<and> (pc s = L94 \<and> active s \<noteq> [] \<longrightarrow> step env fl Main s = s)
     \<and> (i \<in> set (active s) \<and> terminated (run env fl sched' s) \<longrightarrow> Finish i \<in> set sched')
     \<and> int (length (active s)) \<le> wg s"
proof -
  have co: "counter_inv s" unfolding assms by (rule counter_inv_run)
  have 1: "terminated s \<longrightarrow> active s = []"
    unfolding assms using terminated_active by blast
  from co have 2: "pc s = Returned \<longrightarrow> wg s = 0" by (auto simp: counter_inv_def)
  have 3: "pc s = L94 \<and> active s \<noteq> [] \<longrightarrow> step env fl Main s = s"
  proof
    assume h: "pc s = L94 \<and> active s \<noteq> []"
    with co have "wg s = loop_unit s + int (length (active s))" by (simp add: counter_inv_def)
    with h have "wg s \<noteq> 0" by (simp add: loop_unit_def)
    with h show "step env fl Main s = s" by (simp add: step_def terminated_def main_step_def)
  qed
  have 4: "i \<in> set (active s) \<and> terminated (run env fl sched' s) \<longrightarrow> Finish i \<in> set sched'"
  proof
    assume h: "i \<in> set (active s) \<and> terminated (run env fl sched' s)"
    show "Finish i \<in> set sched'"
    proof (rule ccontr)
      assume "Finish i \<notin> set sched'"
      with h have "i \<in> set (active (run env fl sched' s))" by (simp add: active_run_keeps)
      moreover have "run env fl sched' s = run env fl (sched @ sched') init"
        by (simp add: assms run_append)
      ultimately have "active (run env fl (sched @ sched') init) \<noteq> []"
        and "terminated (run env fl (sched @ sched') init)" using h by auto
      then show False using terminated_active by blast
    qed
  qed
  from co have 5: "int (length (active s)) \<le> wg s"
    by (cases "5 \<le> progress (pc s)") (auto simp: counter_inv_def loop_unit_def)
  from 1 2 3 4 5 show ?thesis by blast
qed

theorem no_exit_while_connections_active_witness:
  "sample_draining = run sample_env sample_flags draining_schedule init
   \<and> 0 \<in> set (active sample_draining)
   \<and> terminated (run sample_env sample_flags finishing_schedule sample_draining)
   \<and> Finish 0 \<in> set finishing_schedule
   \<and> \<not> terminated (run sample_env sample_flags
           [AcceptReturns False, Finish 1, Main, Main, Main] sample_draining)"
proof -
  have h: "sample_draining = run sample_env sample_flags draining_schedule init"
    by (simp only: sample_draining_run)
  have a: "0 \<in> set (active sample_draining)"
    by (simp add: sample_draining_def)
  have t: "terminated (run sample_env sample_flags finishing_schedule sample_draining)"
    unfolding sample_finishes by (simp add: terminated_def)
  have n: "\<not> terminated (run sample_env sample_flags
           [AcceptReturns False, Finish 1, Main, Main, Main] sample_draining)"
    unfolding sample_blocked
    by (simp add: terminated_def sample_draining_def sample_listening_def)
  from no_exit_while_connections_active [OF h, of 0 finishing_schedule] a t
  have "Finish 0 \<in> set finishing_schedule" by blast
  with h a t n show ?thesis by blast
qed

text \<open>
  Claim C5. A termination signal received by a process that is DRAINING changes nothing:
  the state of the process is the same afterwards, so nothing crashes, the listener is
  not closed again and the join counter keeps its value. Receiving the signal twice in a
  row is the same as receiving it once, in any state. In every execution the listener is
  closed at most once and the stop channel never holds more than its one notification.
\<close>

theorem second_sigterm_is_noop:
  "(lifecycle s = DRAINING \<longrightarrow> step env fl (Signal SIGTERM) s = s)
   \<and> step env fl (Signal SIGTERM) (step env fl (Signal SIGTERM) s) = step env fl (Signal SIGTERM) s
   \<and> close_calls (run env fl sched init) \<le> 1
   \<and> stopper (run env fl sched init) \<le> 1
   \<and> (lifecycle (run env fl sched init) = DRAINING \<longrightarrow>
        close_calls (run env fl (sched @ [Signal SIGTERM]) init) = 1
        \<and> wg (run env fl (sched @ [Signal SIGTERM]) init) = wg (run env fl sched init)
        \<and> \<not> terminated (run env fl (sched @ [Signal SIGTERM]) init))"
proof -
  let ?t = "run env fl sched init"
  have 1: "lifecycle s = DRAINING \<longrightarrow> step env fl (Signal SIGTERM) s = s" for s
    by (auto simp: lifecycle_def step_def sigterm_received_def split: if_splits)
  have 2: "step env fl (Signal SIGTERM) (step env fl (Signal SIGTERM) s)
             = step env fl (Signal SIGTERM) s"
    by (cases "terminated s") (simp_all add: step_def terminated_def frame sigterm_idem)
  have sh: "shutdown_inv ?t" by (rule shutdown_inv_run)
  then have 3: "close_calls ?t \<le> 1" by (cases "listener_closed ?t") (simp_all add: shutdown_inv_def)
  from sh have 4: "stopper ?t \<le> 1" by (simp add: shutdown_inv_def)
  have 5: "lifecycle ?t = DRAINING \<longrightarrow>
        close_calls (run env fl (sched @ [Signal SIGTERM]) init) = 1
        \<and> wg (run env fl (sched @ [Signal SIGTERM]) init) = wg ?t
        \<and> \<not> terminated (run env fl (sched @ [Signal SIGTERM]) init)"
  proof
    assume d: "lifecycle ?t = DRAINING"
    with 1 have e: "run env fl (sched @ [Signal SIGTERM]) init = ?t" by (simp add: run_append)
    from d have "listener_closed ?t" and "\<not> terminated ?t"
      by (auto simp: lifecycle_def split: if_splits)
    with sh e show "close_calls (run env fl (sched @ [Signal SIGTERM]) init) = 1
        \<and> wg (run env fl (sched @ [Signal SIGTERM]) init) = wg ?t
        \<and> \<not> terminated (run env fl (sched @ [Signal SIGTERM]) init)"
      by (simp add: shutdown_inv_def)
  qed
  from 1 2 3 4 5 show ?thesis by blast
qed

theorem second_sigterm_is_noop_witness:
  "lifecycle sample_draining = DRAINING
   \<and> step sample_env sample_flags (Signal SIGTERM) sample_draining = sample_draining
   \<and> close_calls (run sample_env sample_flags (draining_schedule @ [Signal SIGTERM]) init) = 1
   \<and> wg (run sample_env sample_flags (draining_schedule @ [Signal SIGTERM]) init) = 3"
proof -
  have l: "lifecycle sample_draining = DRAINING"
    by (simp add: lifecycle_def terminated_def sample_draining_def sample_listening_def)
  then have l': "lifecycle (run sample_env sample_flags draining_schedule init) = DRAINING"
    by (simp only: sample_draining_run)
  have w: "wg (run sample_env sample_flags draining_schedule init) = 3"
    unfolding sample_draining_run by (simp add: sample_draining_def)
  note c = second_sigterm_is_noop [of sample_draining sample_env sample_flags draining_schedule]
  from c l have 1: "step sample_env sample_flags (Signal SIGTERM) sample_draining = sample_draining"
    by blast
  from c l' have "close_calls (run sample_env sample_flags (draining_schedule @ [Signal SIGTERM]) init) = 1
      \<and> wg (run sample_env sample_flags (draining_schedule @ [Signal SIGTERM]) init)
          = wg (run sample_env sample_flags draining_schedule init)"
    by blast
  with w l 1 show ?thesis by simp
qed

text \<open>
  Claim C6. In every execution the exit status is 0 exactly when the main goroutine has
  returned, and then the startup had not failed, the join counter is zero, no connection
  is active and the accept loop has ended; once the counter is zero at the wait of line 94
  the main goroutine runs to that exit. When a statement of the startup fails (the
  logger, the bind or the TLS material), the process never launches the accept loop nor
  accepts a connection, it is in STARTING until it is TERMINATED, and after the first three
  statements of \<^verbatim>\<open>main\<close> it has panicked with that failure, with exit status 2. An
  exit status other than 0 is 2 and comes from a failed startup only.
\<close>

theorem exit_code_zero_iff_drained:
  assumes "s = run env fl sched init"
  shows "((exit_code s = Some 0) = (pc s = Returned))
     \<and> (exit_code s = Some 0 \<longrightarrow>
          wg s = 0 \<and> active s = [] \<and> startup_failure env fl = None
          \<and> (acceptor s = StoppedOnNotification \<or> acceptor s = StoppedOnError))
     \<and> (pc s = L94 \<and> wg s = 0 \<longrightarrow> exit_code (run env fl [Main, Main] s) = Some 0)
     \<and> (\<forall>e. startup_failure env fl = Some e \<longrightarrow>
          exit_code s \<noteq> Some 0 \<and> acceptor s = NotLaunched \<and> active s = []
          \<and> (lifecycle s = STARTING \<or> lifecycle s = TERMINATED)
          \<and> pc (run env fl ([Main, Main, Main] @ sched) init) = Panicked e
          \<and> exit_code (run env fl ([Main, Main, Main] @ sched) init) = Some 2)
     \<and> (\<forall>c. exit_code s = Some c \<and> c \<noteq> 0 \<longrightarrow>
          c = 2 \<and> startup_failure env fl \<noteq> None \<and> acceptor s = NotLaunched)"
proof -
  have st: "startup_inv env fl s" unfolding assms by (rule startup_inv_run)
  have co: "counter_inv s" unfolding assms by (rule counter_inv_run)
  have sh: "shutdown_inv s" unfolding assms by (rule shutdown_inv_run)
  have pa: "panic_inv env fl s" unfolding assms by (rule panic_inv_run)
  have su: "success_inv env fl s" unfolding assms by (rule success_inv_run)
  have 1: "(exit_code s = Some 0) = (pc s = Returned)"
    by (cases "pc s") (simp_all add: exit_code_def)
  have 2: "exit_code s = Some 0 \<longrightarrow>
          wg s = 0 \<and> active s = [] \<and> startup_failure env fl = None
          \<and> (acceptor s = StoppedOnNotification \<or> acceptor s = StoppedOnError)"
  proof
    assume "exit_code s = Some 0"
    with 1 have r: "pc s = Returned" by simp
    with co have w: "wg s = 0" and e: "wg s = loop_unit s + int (length (active s))"
      by (simp_all add: counter_inv_def)
    have "0 \<le> loop_unit s" by (simp add: loop_unit_def)
    moreover have "0 \<le> int (length (active s))" by simp
    ultimately have l: "loop_unit s = 0" and "int (length (active s)) = 0"
      using w e by linarith+
    then have a: "active s = []" by simp
    from l have "acceptor s = StoppedOnNotification \<or> acceptor s = StoppedOnError"
      by (cases "acceptor s") (simp_all add: loop_unit_def)
    moreover from su r have "startup_failure env fl = None"
      by (simp add: success_inv_def startup_failure_None)
    ultimately show "wg s = 0 \<and> active s = [] \<and> startup_failure env fl = None
          \<and> (acceptor s = StoppedOnNotification \<or> acceptor s = StoppedOnError)"
      using w a by simp
  qed
  have 3: "pc s = L94 \<and> wg s = 0 \<longrightarrow> exit_code (run env fl [Main, Main] s) = Some 0"
  proof
    assume h: "pc s = L94 \<and> wg s = 0"
    with st obtain lg where "the_logger s = Some lg" by (auto simp: startup_inv_def)
    with h show "exit_code (run env fl [Main, Main] s) = Some 0"
      by (simp add: step_def terminated_def main_step_def Printf_def exit_code_def)
  qed
  have 4: "\<forall>e. startup_failure env fl = Some e \<longrightarrow>
          exit_code s \<noteq> Some 0 \<and> acceptor s = NotLaunched \<and> active s = []
          \<and> (lifecycle s = STARTING \<or> lifecycle s = TERMINATED)
          \<and> pc (run env fl ([Main, Main, Main] @ sched) init) = Panicked e
          \<and> exit_code (run env fl ([Main, Main, Main] @ sched) init) = Some 2"
  proof (intro allI impI)
    fix e assume f: "startup_failure env fl = Some e"
    then have p: "progress (pc s) < 3" unfolding assms by (rule startup_failure_progress)
    with 1 have a: "exit_code s \<noteq> Some 0" by auto
    from st p have b: "acceptor s = NotLaunched" by (simp add: startup_inv_def)
    with co have c: "active s = []" by (simp add: counter_inv_def)
    from sh p have "\<not> listener_closed s" by (auto simp: shutdown_inv_def)
    with b have d: "lifecycle s = STARTING \<or> lifecycle s = TERMINATED"
      by (simp add: lifecycle_def)
    let ?t = "run env fl [Main, Main, Main] init"
    from f have t: "pc ?t = Panicked e" by (rule three_steps_failure)
    then have "terminated ?t" by (simp add: terminated_def)
    then have "run env fl ([Main, Main, Main] @ sched) init = ?t"
      by (simp only: run_append run_terminated)
    with t have "pc (run env fl ([Main, Main, Main] @ sched) init) = Panicked e"
      and "exit_code (run env fl ([Main, Main, Main] @ sched) init) = Some 2"
      by (simp_all add: exit_code_def)
    with a b c d show "exit_code s \<noteq> Some 0 \<and> acceptor s = NotLaunched \<and> active s = []
          \<and> (lifecycle s = STARTING \<or> lifecycle s = TERMINATED)
          \<and> pc (run env fl ([Main, Main, Main] @ sched) init) = Panicked e
          \<and> exit_code (run env fl ([Main, Main, Main] @ sched) init) = Some 2"
      by simp
  qed
  have 5: "\<forall>c. exit_code s = Some c \<and> c \<noteq> 0 \<longrightarrow>
          c = 2 \<and> startup_failure env fl \<noteq> None \<and> acceptor s = NotLaunched"
  proof (intro allI impI)
    fix c assume h: "exit_code s = Some c \<and> c \<noteq> 0"
    then obtain e where e: "pc s = Panicked e" and c: "c = 2"
      by (cases "pc s") (auto simp: exit_code_def)
    with pa have "panic_cause env fl e" by (simp add: panic_inv_def)
    then have f: "startup_failure env fl \<noteq> None" by (rule panic_cause_failure)
    from e have "progress (pc s) < 7" by (cases e) simp_all
    with st have "acceptor s = NotLaunched" by (simp add: startup_inv_def)
    with c f show "c = 2 \<and> startup_failure env fl \<noteq> None \<and> acceptor s = NotLaunched"
      by simp
  qed
  from 1 2 3 4 5 show ?thesis by blast
qed

theorem exit_code_zero_iff_drained_witness:
  "exit_code (run sample_env sample_flags (draining_schedule @ finishing_schedule) init) = Some 0
   \<and> wg (run sample_env sample_flags (draining_schedule @ finishing_schedule) init) = 0
   \<and> startup_failure sample_env sample_flags = None
   \<and> startup_failure sample_env sample_flags_nokey = Some KeyMaterialError
   \<and> exit_code (run sample_env sample_flags_nokey ([Main, Main, Main] @ []) init) = Some 2"
proof -
  let ?s = "run sample_env sample_flags (draining_schedule @ finishing_schedule) init"
  have e: "?s = run sample_env sample_flags finishing_schedule sample_draining"
    by (simp only: run_append sample_draining_run)
  have r: "pc ?s = Returned" unfolding e sample_finishes by simp
  have f: "startup_failure sample_env sample_flags_nokey = Some KeyMaterialError"
    by (simp add: startup_failure_def initLogger_def sample_flags_nokey_def sample_flags_def
        sample_env_def NewReusablePortListener_def buildConfig_def)
  from exit_code_zero_iff_drained [of ?s sample_env sample_flags
      "draining_schedule @ finishing_schedule"] r
  have 1: "exit_code ?s = Some 0 \<and> wg ?s = 0 \<and> startup_failure sample_env sample_flags = None"
    by blast
  from exit_code_zero_iff_drained [of "run sample_env sample_flags_nokey [] init"
      sample_env sample_flags_nokey "[]"] f
  have 2: "exit_code (run sample_env sample_flags_nokey ([Main, Main, Main] @ []) init) = Some 2"
    by blast
  from 1 2 f show ?thesis by blast
qed

text \<open>
  Claim C7. An active connection stays active through every step but the end of its own
  task, a termination signal included, and the process does not exit while it is active.
  Once the listener is closed it stays closed and no connection is accepted any more: in
  every continuation the active connections are among those that were active at the
  close, and none is numbered. An accept call on the closed listener ends the accept
  loop at once, without a connection.
\<close>

theorem accepted_connections_finish_no_accept_after_close:
  "(i \<in> set (active s) \<and> a \<noteq> Finish i \<longrightarrow> i \<in> set (active (step env fl a s)))
   \<and> (i \<in> set (active (run env fl sched init)) \<longrightarrow> \<not> terminated (run env fl sched init))
   \<and> (listener_closed s \<longrightarrow>
        listener_closed (run env fl sched' s)
        \<and> set (active (run env fl sched' s)) \<subseteq> set (active s)
        \<and> next_conn (run env fl sched' s) = next_conn s)
   \<and> (listener_closed s \<and> acceptor s = Accepting \<and> \<not> terminated s \<longrightarrow>
        acceptor (step env fl (AcceptReturns b) s) \<noteq> Accepting
        \<and> active (step env fl (AcceptReturns b) s) = active s)"
proof -
  have 1: "i \<in> set (active s) \<and> a \<noteq> Finish i \<longrightarrow> i \<in> set (active (step env fl a s))"
    using active_step_keeps by blast
  have 2: "i \<in> set (active (run env fl sched init)) \<longrightarrow> \<not> terminated (run env fl sched init)"
    using terminated_active [of env fl sched] by auto
  have 3: "listener_closed s \<longrightarrow>
        listener_closed (run env fl sched' s)
        \<and> set (active (run env fl sched' s)) \<subseteq> set (active s)
        \<and> next_conn (run env fl sched' s) = next_conn s"
    using closed_run by blast
  have 4: "listener_closed s \<and> acceptor s = Accepting \<and> \<not> terminated s \<longrightarrow>
        acceptor (step env fl (AcceptReturns b) s) \<noteq> Accepting
        \<and> active (step env fl (AcceptReturns b) s) = active s"
    by (simp add: step_def accept_returns_def accept_error_def)
  from 1 2 3 4 show ?thesis by blast
qed

theorem accepted_connections_finish_no_accept_after_close_witness:
  "0 \<in> set (active sample_draining)
   \<and> 0 \<in> set (active (step sample_env sample_flags (Signal SIGTERM) sample_draining))
   \<and> listener_closed sample_draining
   \<and> acceptor sample_draining = Accepting
   \<and> acceptor (step sample_env sample_flags (AcceptReturns True) sample_draining) \<noteq> Accepting
   \<and> active (step sample_env sample_flags (AcceptReturns True) sample_draining)
        = active sample_draining
   \<and> next_conn (run sample_env sample_flags finishing_schedule sample_draining)
        = next_conn sample_draining"
proof -
  have a: "0 \<in> set (active sample_draining)" and c: "listener_closed sample_draining"
    and l: "acceptor sample_draining = Accepting" and t: "\<not> terminated sample_draining"
    by (simp_all add: sample_draining_def sample_listening_def terminated_def)
  have d: "Signal SIGTERM \<noteq> Finish 0" by simp
  note k = accepted_connections_finish_no_accept_after_close
    [of 0 sample_draining "Signal SIGTERM" sample_env sample_flags "[]" finishing_schedule True]
  from k a d have 1: "0 \<in> set (active (step sample_env sample_flags (Signal SIGTERM) sample_draining))"
    by blast
  from k c have 2: "next_conn (run sample_env sample_flags finishing_schedule sample_draining)
        = next_conn sample_draining" by blast
  from k c l t have 3:
    "acceptor (step sample_env sample_flags (AcceptReturns True) sample_draining) \<noteq> Accepting
     \<and> active (step sample_env sample_flags (AcceptReturns True) sample_draining)
        = active sample_draining" by blast
  from a c l 1 2 3 show ?thesis by blast
qed




text \<open>
  Claim C10, as amended. Every entry that the logger of \<^verbatim>\<open>initLogger\<close> hands to its writer
  starts with the prefix that line 44 sets: an opening bracket, the process ID in decimal
  padded with spaces on the left to five characters, a closing bracket and a space. On
  standard error the line emitted is the entry, so every line of every execution starts
  with that prefix. On the system log the line emitted is the header of the system log
  (the priority 29 in angle brackets, a time stamp, the program's name and the process ID
  in brackets, a colon) followed by the entry, so the prefix comes right after the
  header. Two processes with different IDs have different prefixes, so the lines of a
  parent and of its child can be told apart.
\<close>

theorem log_entries_carry_pid_prefix:
  "(\<forall>lg k msg. initLogger env fl = Inr lg \<longrightarrow>
      (\<exists>rest. log_line env lg k msg = line_header env fl k @ pid_prefix (pid env) @ rest))
   \<and> (\<forall>k < length (log_out (run env fl sched init)).
        \<exists>rest. log_out (run env fl sched init) ! k
                 = line_header env fl k @ pid_prefix (pid env) @ rest)
   \<and> (\<not> useSyslog fl \<longrightarrow>
        (\<forall>l \<in> set (log_out (run env fl sched init)).
           take (length (pid_prefix (pid env))) l = pid_prefix (pid env)))
   \<and> line_header env fl n =
        (if useSyslog fl
         then ''<29>'' @ syslog_timestamp env n @ '' '' @ program_name env
                @ ''['' @ fmt_d (pid env) @ '']: ''
         else [])
   \<and> pid_prefix (pid env)
        = ''['' @ replicate (5 - length (fmt_d (pid env))) CHR '' '' @ fmt_d (pid env) @ ''] ''
   \<and> (\<forall>q. pid_prefix q = pid_prefix (pid env) \<longrightarrow> q = pid env)"
proof -
  let ?s = "run env fl sched init"
  have li: "log_inv env fl ?s" by (rule log_inv_run)
  have a: "\<forall>lg k msg. initLogger env fl = Inr lg \<longrightarrow>
      (\<exists>rest. log_line env lg k msg = line_header env fl k @ pid_prefix (pid env) @ rest)"
    using initLogger_dest initLogger_prefix log_line_header by blast
  have b: "\<forall>k < length (log_out ?s).
        \<exists>rest. log_out ?s ! k = line_header env fl k @ pid_prefix (pid env) @ rest"
  proof (intro allI impI)
    fix k assume "k < length (log_out ?s)"
    with li have "take (length (line_header env fl k @ pid_prefix (pid env))) (log_out ?s ! k)
              = line_header env fl k @ pid_prefix (pid env)"
      by (simp add: log_inv_def)
    then have "log_out ?s ! k = (line_header env fl k @ pid_prefix (pid env))
        @ drop (length (line_header env fl k @ pid_prefix (pid env))) (log_out ?s ! k)"
      by (metis append_take_drop_id)
    then show "\<exists>rest. log_out ?s ! k = line_header env fl k @ pid_prefix (pid env) @ rest"
      by (metis append.assoc)
  qed
  have c: "\<not> useSyslog fl \<longrightarrow>
        (\<forall>l \<in> set (log_out ?s). take (length (pid_prefix (pid env))) l = pid_prefix (pid env))"
  proof (intro impI ballI)
    fix l assume u: "\<not> useSyslog fl" and "l \<in> set (log_out ?s)"
    then obtain k where k: "k < length (log_out ?s)" and l: "l = log_out ?s ! k"
      by (auto simp: in_set_conv_nth)
    from b k obtain rest
      where "log_out ?s ! k = line_header env fl k @ pid_prefix (pid env) @ rest" by blast
    with u l show "take (length (pid_prefix (pid env))) l = pid_prefix (pid env)"
      by (simp add: line_header_def)
  qed
  have d: "line_header env fl n =
        (if useSyslog fl
         then ''<29>'' @ syslog_timestamp env n @ '' '' @ program_name env
                @ ''['' @ fmt_d (pid env) @ '']: ''
         else [])"
    by (simp add: line_header_def syslog_header_def sample_priority)
  have e: "pid_prefix (pid env)
        = ''['' @ replicate (5 - length (fmt_d (pid env))) CHR '' '' @ fmt_d (pid env) @ ''] ''"
    by (simp add: pid_prefix_def fmt_5d_def pad_left_def)
  have f: "\<forall>q. pid_prefix q = pid_prefix (pid env) \<longrightarrow> q = pid env"
    using pid_prefix_inj by blast
  from a b c d e f show ?thesis by blast
qed

theorem log_entries_carry_pid_prefix_witness:
  "initLogger sample_env sample_flags = Inr \<lparr>dest = Stderr, prefix = ''[ 4321] '', lflags = 7\<rparr>
   \<and> \<not> useSyslog sample_flags
   \<and> take 8 (hd (log_out (run sample_env sample_flags startup_schedule init))) = ''[ 4321] ''
   \<and> useSyslog sample_flags_syslog
   \<and> 0 < length (log_out (run sample_env sample_flags_syslog listening_schedule init))
   \<and> line_header sample_env sample_flags_syslog 0 = ''<29>Nov  2 10:00:00 ghostunnel[4321]: ''
   \<and> take 46 (log_out (run sample_env sample_flags_syslog listening_schedule init) ! 0)
        = ''<29>Nov  2 10:00:00 ghostunnel[4321]: [ 4321] ''"
proof -
  have p: "pid sample_env = 4321" by (simp add: sample_env_def)
  have u: "\<not> useSyslog sample_flags" by (simp add: sample_flags_def)
  have v: "useSyslog sample_flags_syslog" by (simp add: sample_flags_syslog_def)
  have i: "initLogger sample_env sample_flags
             = Inr \<lparr>dest = Stderr, prefix = ''[ 4321] '', lflags = 7\<rparr>"
    by (simp add: initLogger_def log_New_def SetPrefix_def LstdFlags_Lmicroseconds_def
        sample_flags_def p sample_pid_prefix)
  note t1 = log_entries_carry_pid_prefix [of sample_env sample_flags startup_schedule 0]
  from t1 u
  have "\<forall>l \<in> set (log_out (run sample_env sample_flags startup_schedule init)).
          take (length (pid_prefix (pid sample_env))) l = pid_prefix (pid sample_env)"
    by blast
  then have 1: "take 8 (hd (log_out (run sample_env sample_flags startup_schedule init))) = ''[ 4321] ''"
    unfolding sample_startup by (simp add: sample_listening_def p sample_pid_prefix)
  note t2 = log_entries_carry_pid_prefix [of sample_env sample_flags_syslog listening_schedule 0]
  have n: "0 < length (log_out (run sample_env sample_flags_syslog listening_schedule init))"
    unfolding sample_syslog_line by simp
  from t2 v have h: "line_header sample_env sample_flags_syslog 0
      = ''<29>Nov  2 10:00:00 ghostunnel[4321]: ''"
    by (simp add: sample_env_def sample_fmt_pid)
  from t2 n obtain rest where "log_out (run sample_env sample_flags_syslog listening_schedule init) ! 0
      = line_header sample_env sample_flags_syslog 0 @ pid_prefix (pid sample_env) @ rest"
    by blast
  then have 2: "take 46 (log_out (run sample_env sample_flags_syslog listening_schedule init) ! 0)
        = ''<29>Nov  2 10:00:00 ghostunnel[4321]: [ 4321] ''"
    by (simp add: h p sample_pid_prefix)
  from i u 1 v n h 2 show ?thesis by blast
qed

text \<open>
  Claim C10 as stated, that every line starts with the bracketed process ID whatever the
  destination, fails on the system log: the first line that the sample process emits
  there starts with the priority and the time stamp of the system log, and the prefix of
  line 44 comes after the header.
\<close>

theorem syslog_line_starts_with_header_counterexample:
  "useSyslog sample_flags_syslog
   \<and> log_out (run sample_env sample_flags_syslog listening_schedule init) =
       [''<29>Nov  2 10:00:00 ghostunnel[4321]: [ 4321] 2015/11/02 10:00:00.000000 listening on 127.0.0.1:9443''
          @ [CHR 0x0A]]
   \<and> pid_prefix (pid sample_env) = ''[ 4321] ''
   \<and> take 8 (hd (log_out (run sample_env sample_flags_syslog listening_schedule init)))
        = ''<29>Nov ''"
  unfolding sample_syslog_line
  by (simp add: sample_flags_syslog_def sample_env_def sample_pid_prefix)

end
